theory Spec2Isabelle
  imports Main "HOL-Library.Sublist" "HOL-Library.Multiset"
begin

section \<open>Python strings\<close>

text \<open>
  A Python \<open>str\<close> is modelled as a \<open>string\<close> whose characters stand for the code
  points below 256. The character classes follow CPython's tables on that range.
\<close>

definition is_space :: "char \<Rightarrow> bool" where
  \<comment> \<open>\<open>str.isspace\<close> on one character, also the class \<open>\s\<close> of \<open>re\<close>\<close>
  "is_space c = (let n = of_char c :: nat in
     (9 \<le> n \<and> n \<le> 13) \<or> (28 \<le> n \<and> n \<le> 32) \<or> n = 133 \<or> n = 160)"

definition is_digit :: "char \<Rightarrow> bool" where
  \<comment> \<open>the class \<open>\d\<close> of \<open>re\<close>: the decimal digits\<close>
  "is_digit c = (let n = of_char c :: nat in 48 \<le> n \<and> n \<le> 57)"

definition is_word :: "char \<Rightarrow> bool" where
  \<comment> \<open>the class \<open>\w\<close> of \<open>re\<close>: alphanumeric characters and the underscore\<close>
  "is_word c = (let n = of_char c :: nat in
     (48 \<le> n \<and> n \<le> 57) \<or> (65 \<le> n \<and> n \<le> 90) \<or> n = 95 \<or> (97 \<le> n \<and> n \<le> 122)
     \<or> n = 170 \<or> n = 178 \<or> n = 179 \<or> n = 181 \<or> n = 185 \<or> n = 186
     \<or> (188 \<le> n \<and> n \<le> 190) \<or> (192 \<le> n \<and> n \<le> 214)
     \<or> (216 \<le> n \<and> n \<le> 246) \<or> (248 \<le> n \<and> n \<le> 255))"

definition lower_char :: "char \<Rightarrow> char" where
  "lower_char c = (let n = of_char c :: nat in
     if (65 \<le> n \<and> n \<le> 90) \<or> (192 \<le> n \<and> n \<le> 222 \<and> n \<noteq> 215)
     then char_of (n + 32) else c)"

definition lower :: "string \<Rightarrow> string" where
  \<comment> \<open>\<open>str.lower\<close>\<close>
  "lower s = map lower_char s"

definition startswith :: "string \<Rightarrow> string \<Rightarrow> bool" where
  \<comment> \<open>\<open>s.startswith(p)\<close>\<close>
  "startswith s p = prefix p s"

fun find_from :: "string \<Rightarrow> string \<Rightarrow> nat \<Rightarrow> int" where
  "find_from sub [] i = (if sub = [] then int i else - 1)"
| "find_from sub (c # cs) i =
     (if prefix sub (c # cs) then int i else find_from sub cs (Suc i))"

definition py_find :: "string \<Rightarrow> string \<Rightarrow> int" where
  \<comment> \<open>\<open>s.find(sub)\<close>: the lowest index at which \<open>sub\<close> occurs, or \<open>-1\<close>\<close>
  "py_find s sub = find_from sub s 0"

definition contains :: "string \<Rightarrow> string \<Rightarrow> bool" where
  \<comment> \<open>\<open>sub in s\<close>\<close>
  "contains s sub = (0 \<le> py_find s sub)"

definition slice_to :: "string \<Rightarrow> int \<Rightarrow> string" where
  \<comment> \<open>\<open>s[:i]\<close>: a negative bound counts from the end, both bounds are clamped\<close>
  "slice_to s i = (if i < 0 then take (nat (int (length s) + i)) s else take (nat i) s)"

definition replace_char :: "char \<Rightarrow> char \<Rightarrow> string \<Rightarrow> string" where
  \<comment> \<open>\<open>s.replace(a, b)\<close> for one-character \<open>a\<close> and \<open>b\<close>\<close>
  "replace_char a b s = map (\<lambda>c. if c = a then b else c) s"

definition strip :: "string \<Rightarrow> string" where
  \<comment> \<open>\<open>s.strip()\<close>\<close>
  "strip s = rev (dropWhile is_space (rev (dropWhile is_space s)))"

fun split_on :: "char \<Rightarrow> string \<Rightarrow> string \<Rightarrow> string list" where
  "split_on d acc [] = [rev acc]"
| "split_on d acc (c # cs) =
     (if c = d then rev acc # split_on d [] cs else split_on d (c # acc) cs)"

definition split :: "string \<Rightarrow> char \<Rightarrow> string list" where
  \<comment> \<open>\<open>s.split(d)\<close> for a one-character separator: never the empty list\<close>
  "split s d = split_on d [] s"

definition occurs_at :: "string \<Rightarrow> string \<Rightarrow> nat \<Rightarrow> bool" where
  \<comment> \<open>\<open>sub\<close> occurs in \<open>s\<close> starting at index \<open>j\<close>\<close>
  "occurs_at sub s j = (j \<le> length s \<and> prefix sub (drop j s))"

section \<open>Text extraction (util/pdftext.py)\<close>

text \<open>
  The document is the list of the texts \<open>page.get_text()\<close> of its pages, in order.
\<close>

fun page_loop :: "string \<Rightarrow> string list \<Rightarrow> string" where
  "page_loop text_content [] = text_content"
| "page_loop text_content (page # doc) = page_loop (text_content @ page @ '' '') doc"

definition ref_marker :: string where
  "ref_marker = ''References''"

definition flattened :: "string list \<Rightarrow> string" where
  \<comment> \<open>\<open>text_content\<close> after the replacement of the newlines\<close>
  "flattened doc = replace_char (CHR 0x0A) CHR '' '' (page_loop [] doc)"

definition extract_section :: "string list \<Rightarrow> string" where
  "extract_section doc =
     (let text_content = page_loop [] doc;
          text_content = replace_char (CHR 0x0A) CHR '' '' text_content;
          ref_index = py_find text_content ref_marker
      in slice_to text_content ref_index)"

section \<open>Exceptions\<close>

text \<open>
  The exceptions are the instances of \<open>Exception\<close> that the code can meet. A function
  that may raise returns \<open>exn + 'a\<close>, with \<open>Inl\<close> for the exception raised.
\<close>

datatype exn =
  ValueError | OverflowError | AttributeError | IndexError | JSONDecodeError | OSError
  | ConnectionError | HTTPError | OtherException

section \<open>Naive datetimes\<close>

text \<open>
  A naive \<open>datetime\<close> is a point on the proleptic Gregorian time line, counted in
  microseconds from 0001-01-01 00:00. Python compares two naive datetimes by that
  order, and subtracting a \<open>timedelta\<close> subtracts its length, with \<open>OverflowError\<close>
  outside the years 1 to 9999 or for more than 999999999 days.
\<close>

type_synonym datetime = int

definition is_leap :: "int \<Rightarrow> bool" where
  "is_leap y = (y mod 4 = 0 \<and> (y mod 100 \<noteq> 0 \<or> y mod 400 = 0))"

definition days_in_month :: "int \<Rightarrow> int \<Rightarrow> int" where
  "days_in_month y m =
     (if m = 2 then (if is_leap y then 29 else 28)
      else if m = 4 \<or> m = 6 \<or> m = 9 \<or> m = 11 then 30 else 31)"

definition days_before_year :: "int \<Rightarrow> int" where
  "days_before_year y = (y - 1) * 365 + (y - 1) div 4 - (y - 1) div 100 + (y - 1) div 400"

definition days_before_month :: "int \<Rightarrow> int \<Rightarrow> int" where
  "days_before_month y m = sum_list (map (days_in_month y) [1..m - 1])"

definition ymd2ord :: "int \<Rightarrow> int \<Rightarrow> int \<Rightarrow> int" where
  "ymd2ord y m d = days_before_year y + days_before_month y m + d"

definition us_per_day :: int where
  "us_per_day = 86400000000"

definition timestamp :: "int \<Rightarrow> int \<Rightarrow> int \<Rightarrow> datetime" where
  \<comment> \<open>midnight at the start of the day \<open>y-m-d\<close>\<close>
  "timestamp y m d = (ymd2ord y m d - 1) * us_per_day"

definition datetime_ymd :: "int \<Rightarrow> int \<Rightarrow> int \<Rightarrow> exn + datetime" where
  \<comment> \<open>\<open>datetime(y, m, d)\<close>\<close>
  "datetime_ymd y m d =
     (if 1 \<le> y \<and> y \<le> 9999 \<and> 1 \<le> m \<and> m \<le> 12 \<and> 1 \<le> d \<and> d \<le> days_in_month y m
      then Inr (timestamp y m d) else Inl ValueError)"

definition max_ordinal :: int where
  "max_ordinal = 3652059"

definition minus_days :: "datetime \<Rightarrow> int \<Rightarrow> exn + datetime" where
  \<comment> \<open>\<open>t - timedelta(days=days)\<close>\<close>
  "minus_days t days =
     (if days < - 999999999 \<or> 999999999 < days then Inl OverflowError
      else let r = t - days * us_per_day
           in if r < 0 \<or> max_ordinal * us_per_day \<le> r then Inl OverflowError else Inr r)"

section \<open>Parsed markup\<close>

text \<open>
  A parsed document is a tree of text nodes and elements with their attributes, as
  \<open>BeautifulSoup\<close> gives it. \<open>find\<close> and \<open>find_all\<close> search the descendants in document
  order; a \<open>class_\<close> filter matches an element when one of the whitespace-separated
  tokens of its \<open>class\<close> attribute is the given name; \<open>get_text(strip=True)\<close> joins the
  stripped, non-empty text nodes below the element.
\<close>

datatype html = Text string | Elem string "(string \<times> string) list" "html list"

fun descendants :: "html \<Rightarrow> html list" where
  "descendants (Text s) = []"
| "descendants (Elem n as cs) = concat (map (\<lambda>c. c # descendants c) cs)"

fun tokens :: "string \<Rightarrow> string \<Rightarrow> string list" where
  \<comment> \<open>the whitespace-separated tokens of an attribute value\<close>
  "tokens acc [] = (if acc = [] then [] else [rev acc])"
| "tokens acc (c # cs) =
     (if is_space c then (if acc = [] then tokens [] cs else rev acc # tokens [] cs)
      else tokens (c # acc) cs)"

fun is_tag :: "string \<Rightarrow> html \<Rightarrow> bool" where
  "is_tag n (Text s) = False"
| "is_tag n (Elem m as cs) = (m = n)"

fun has_class :: "string \<Rightarrow> html \<Rightarrow> bool" where
  "has_class c (Text s) = False"
| "has_class c (Elem n as cs) =
     (case map_of as ''class'' of None \<Rightarrow> False | Some v \<Rightarrow> c \<in> set (tokens [] v))"

fun attr_get :: "html \<Rightarrow> string \<Rightarrow> string \<Rightarrow> string" where
  \<comment> \<open>\<open>a.get(k, d)\<close>\<close>
  "attr_get (Text s) k d = d"
| "attr_get (Elem n as cs) k d = (case map_of as k of None \<Rightarrow> d | Some v \<Rightarrow> v)"

definition find_all :: "html \<Rightarrow> string \<Rightarrow> html list" where
  \<comment> \<open>\<open>e.find_all(n)\<close>\<close>
  "find_all e n = filter (is_tag n) (descendants e)"

definition find_all_class :: "html \<Rightarrow> string \<Rightarrow> string \<Rightarrow> html list" where
  \<comment> \<open>\<open>e.find_all(n, class_=c)\<close>\<close>
  "find_all_class e n c = filter (\<lambda>x. is_tag n x \<and> has_class c x) (descendants e)"

definition find_class :: "html \<Rightarrow> string \<Rightarrow> string \<Rightarrow> html option" where
  \<comment> \<open>\<open>e.find(n, class_=c)\<close>\<close>
  "find_class e n c = (case find_all_class e n c of [] \<Rightarrow> None | x # _ \<Rightarrow> Some x)"

fun text_of :: "html \<Rightarrow> string list" where
  "text_of (Text s) = [s]"
| "text_of (Elem n as cs) = []"

definition get_text_strip :: "html \<Rightarrow> string" where
  \<comment> \<open>\<open>e.get_text(strip=True)\<close>\<close>
  "get_text_strip e =
     concat (filter (\<lambda>s. s \<noteq> []) (map strip (concat (map text_of (descendants e)))))"

section \<open>Regular expressions\<close>

text \<open>
  A pattern is matched by backtracking. Each construct maps the rest of the input to the
  list of the rests that remain after a match, in the order in which the matcher tries
  them, so the head of the list is the match that \<open>re\<close> reports. \<open>rep P lo hi\<close> is the
  greedy repetition of a character class between \<open>lo\<close> and \<open>hi\<close> times.
  \<open>date_pattern\<close> is \<^verbatim>\<open>Submitted\s*(\d{1,2}\s+\w+,\s*\d{4})\<close> and yields the
  captured group.
\<close>

fun rep :: "(char \<Rightarrow> bool) \<Rightarrow> nat \<Rightarrow> nat option \<Rightarrow> string \<Rightarrow> string list" where
  "rep P lo hi [] = (if lo = 0 then [[]] else [])"
| "rep P lo hi (c # cs) =
     (if P c \<and> hi \<noteq> Some 0 then rep P (lo - 1) (map_option (\<lambda>h. h - 1) hi) cs else [])
     @ (if lo = 0 then [c # cs] else [])"

definition lit :: "string \<Rightarrow> string \<Rightarrow> string list" where
  \<comment> \<open>a literal\<close>
  "lit p s = (if prefix p s then [drop (length p) s] else [])"

definition date_group :: "string \<Rightarrow> string list" where
  "date_group s =
     [take (length s - length r6) s.
        r1 \<leftarrow> rep is_digit 1 (Some 2) s, r2 \<leftarrow> rep is_space 1 None r1,
        r3 \<leftarrow> rep is_word 1 None r2, r4 \<leftarrow> lit '','' r3,
        r5 \<leftarrow> rep is_space 0 None r4, r6 \<leftarrow> rep is_digit 4 (Some 4) r5]"

definition date_pattern :: "string \<Rightarrow> string list" where
  "date_pattern s =
     [g. r1 \<leftarrow> lit ''Submitted'' s, r2 \<leftarrow> rep is_space 0 None r1, g \<leftarrow> date_group r2]"

fun re_search :: "string \<Rightarrow> string option" where
  \<comment> \<open>\<open>re.search(date_pattern, s)\<close> and \<open>match.group(1)\<close>: the leftmost match\<close>
  "re_search [] = (case date_pattern [] of [] \<Rightarrow> None | g # _ \<Rightarrow> Some g)"
| "re_search (c # cs) = (case date_pattern (c # cs) of [] \<Rightarrow> re_search cs | g # _ \<Rightarrow> Some g)"

section \<open>strptime\<close>

text \<open>
  \<open>datetime.strptime\<close> with the format \<^verbatim>\<open>%d %B, %Y\<close>. The format becomes the
  pattern \<^verbatim>\<open>(3[0-1]|[1-2]\d|0[1-9]|[1-9]| [1-9])\s+(month),\s+(\d\d\d\d)\<close>,
  the month names of the C locale tried longest first and matched without regard to
  case. The pattern is matched at the start
  of the string, must use the string up, and the fields must make a valid date;
  every failure is a \<open>ValueError\<close>.
\<close>

definition in_range :: "char \<Rightarrow> char \<Rightarrow> char \<Rightarrow> bool" where
  "in_range a b c = ((of_char a :: nat) \<le> of_char c \<and> (of_char c :: nat) \<le> of_char b)"

fun cls2 :: "(char \<Rightarrow> bool) \<Rightarrow> (char \<Rightarrow> bool) \<Rightarrow> string \<Rightarrow> (string \<times> string) list" where
  "cls2 P Q (a # b # r) = (if P a \<and> Q b then [([a, b], r)] else [])"
| "cls2 P Q s = []"

fun cls1 :: "(char \<Rightarrow> bool) \<Rightarrow> string \<Rightarrow> (string \<times> string) list" where
  "cls1 P (a # r) = (if P a then [([a], r)] else [])"
| "cls1 P s = []"

definition directive_d :: "string \<Rightarrow> (string \<times> string) list" where
  "directive_d s =
     cls2 (\<lambda>c. c = CHR ''3'') (in_range CHR ''0'' CHR ''1'') s
     @ cls2 (in_range CHR ''1'' CHR ''2'') is_digit s
     @ cls2 (\<lambda>c. c = CHR ''0'') (in_range CHR ''1'' CHR ''9'') s
     @ cls1 (in_range CHR ''1'' CHR ''9'') s
     @ cls2 (\<lambda>c. c = CHR '' '') (in_range CHR ''1'' CHR ''9'') s"

definition f_month :: "string list" where
  "f_month = ['''', ''january'', ''february'', ''march'', ''april'', ''may'', ''june'', ''july'',
     ''august'', ''september'', ''october'', ''november'', ''december'']"

definition month_alternatives :: "string list" where
  "month_alternatives = [''september'', ''february'', ''november'', ''december'', ''january'',
     ''october'', ''august'', ''march'', ''april'', ''june'', ''july'', ''may'']"

definition lit_ci :: "string \<Rightarrow> string \<Rightarrow> (string \<times> string) list" where
  "lit_ci p s =
     (if length p \<le> length s \<and> lower (take (length p) s) = p
      then [(take (length p) s, drop (length p) s)] else [])"

definition directive_B :: "string \<Rightarrow> (string \<times> string) list" where
  "directive_B s = concat (map (\<lambda>p. lit_ci p s) month_alternatives)"

fun index_of :: "string \<Rightarrow> string list \<Rightarrow> nat \<Rightarrow> exn + int" where
  "index_of x [] i = Inl ValueError"
| "index_of x (y # ys) i = (if x = y then Inr (int i) else index_of x ys (Suc i))"

definition digit_val :: "char \<Rightarrow> int" where
  "digit_val c = int (of_char c) - 48"

definition int_of :: "string \<Rightarrow> int" where
  \<comment> \<open>\<open>int(s)\<close> for a string of digits, blanks around them allowed\<close>
  "int_of s = foldl (\<lambda>n c. 10 * n + digit_val c) 0 (strip s)"

definition format_regex :: "string \<Rightarrow> (string \<times> string \<times> string \<times> string) list" where
  "format_regex s =
     [(d, b, take 4 r5, r6).
        (d, r1) \<leftarrow> directive_d s, r2 \<leftarrow> rep is_space 1 None r1,
        (b, r3) \<leftarrow> directive_B r2, r4 \<leftarrow> lit '','' r3,
        r5 \<leftarrow> rep is_space 1 None r4, r6 \<leftarrow> rep is_digit 4 (Some 4) r5]"

definition strptime :: "string \<Rightarrow> exn + datetime" where
  "strptime data_string =
     (case format_regex data_string of
        [] \<Rightarrow> Inl ValueError
      | (d, b, y, rest) # _ \<Rightarrow>
          if rest \<noteq> [] then Inl ValueError
          else (case index_of (lower b) f_month 0 of
                  Inl e \<Rightarrow> Inl e
                | Inr month \<Rightarrow> datetime_ymd (int_of y) month (int_of d)))"

section \<open>Result extraction (downloader.py)\<close>

definition extract_submission_date :: "html \<Rightarrow> exn + datetime option" where
  "extract_submission_date result =
     (case find_class result ''p'' ''is-size-7'' of
        None \<Rightarrow> Inr None
      | Some date_info \<Rightarrow>
          let date_text = get_text_strip date_info in
          (case re_search date_text of
             None \<Rightarrow> Inr None
           | Some date_str \<Rightarrow>
               (case strptime date_str of
                  Inr t \<Rightarrow> Inr (Some t)
                | Inl e \<Rightarrow> if e = ValueError then Inr None else Inl e)))"

fun pdf_loop :: "html list \<Rightarrow> string option" where
  "pdf_loop [] = None"
| "pdf_loop (a # as) =
     (let href = attr_get a ''href'' '''' in
      if contains (lower href) ''pdf''
      then (if \<not> startswith href ''http'' then Some (''https://arxiv.org'' @ href)
            else Some href)
      else pdf_loop as)"

definition extract_pdf_url :: "html \<Rightarrow> string option" where
  "extract_pdf_url result = pdf_loop (find_all result ''a'')"

section \<open>The environment and its effects\<close>

text \<open>
  The program reads a configuration file, the clock and the network, and writes files
  and messages. The environment \<open>env\<close> fixes what each of these operations answers:
  the parsed content of the configuration file or the exception of \<open>open\<close> or
  \<open>json.load\<close>, the response or the exception of \<open>requests.get\<close> for each URL, the
  outcome of writing a file and of \<open>os.makedirs\<close>, the successive readings of the clock,
  the tree that \<open>BeautifulSoup\<close> builds from a page, and the order in which
  \<open>as_completed\<close> hands back the futures of a pool. A computation is a function from
  the trace of the effects so far to its result and the extended trace. The messages
  printed are recorded with their arguments, not as formatted text. The downloads of one
  pool are recorded in the order of submission; their results do not depend on the
  order, since the environment answers each URL and each path the same way.
\<close>

datatype json =
  JNull | JBool bool | JNumber int | JString string | JArray "json list"
  | JObject "(string \<times> json) list"

record response =
  status_code :: nat
  body :: string

datatype log =
  LogFetching string | LogFound nat | LogNoDate nat | LogDate nat datetime | LogOlder nat
  | LogNoPdf nat | LogAnchors nat "string list" | LogQueuing nat string
  | LogDownloadError string exn | LogSaved string | LogSaveError string exn
  | LogDone string nat

datatype event =
  EvReadJson string | EvMakedirs string | EvNow | EvGet string | EvWrite string string
  | EvPrint log

type_synonym future = "string \<times> (exn + bool)"

record env =
  read_json :: "string \<Rightarrow> exn + json"
  requests_get :: "string \<Rightarrow> exn + response"
  write_file :: "string \<Rightarrow> string \<Rightarrow> exn option"
  makedirs :: "string \<Rightarrow> exn option"
  clock :: "nat \<Rightarrow> datetime"
  parse_html :: "string \<Rightarrow> html"
  as_completed :: "future list \<Rightarrow> future list"

type_synonym 'a io = "event list \<Rightarrow> (exn + 'a) \<times> event list"

definition return :: "'a \<Rightarrow> 'a io" where
  \<comment> \<open>a value, no effect\<close>
  "return x tr = (Inr x, tr)"

definition raise :: "exn \<Rightarrow> 'a io" where
  \<comment> \<open>\<open>raise e\<close>\<close>
  "raise e tr = (Inl e, tr)"

definition io_bind :: "'a io \<Rightarrow> ('a \<Rightarrow> 'b io) \<Rightarrow> 'b io" where
  \<comment> \<open>one statement after another: an exception of the first skips the second\<close>
  "io_bind m f tr = (case m tr of (Inl e, tr') \<Rightarrow> (Inl e, tr') | (Inr x, tr') \<Rightarrow> f x tr')"

definition try_except :: "'a io \<Rightarrow> (exn \<Rightarrow> 'a io) \<Rightarrow> 'a io" where
  \<comment> \<open>\<open>try: m except Exception as e: h e\<close>\<close>
  "try_except m h tr = (case m tr of (Inl e, tr') \<Rightarrow> h e tr' | (Inr x, tr') \<Rightarrow> (Inr x, tr'))"

definition lift :: "exn + 'a \<Rightarrow> 'a io" where
  \<comment> \<open>a call without effects that may raise\<close>
  "lift r tr = (r, tr)"

definition check :: "exn option \<Rightarrow> unit io" where
  "check r tr = (case r of None \<Rightarrow> (Inr (), tr) | Some e \<Rightarrow> (Inl e, tr))"

primrec io_foldl :: "('b \<Rightarrow> 'a \<Rightarrow> 'b io) \<Rightarrow> 'a list \<Rightarrow> 'b \<Rightarrow> 'b io" where
  \<comment> \<open>a \<open>for\<close> loop over a list that updates \<open>acc\<close>; an exception leaves the loop\<close>
  "io_foldl f [] acc = return acc"
| "io_foldl f (x # xs) acc = io_bind (f acc x) (io_foldl f xs)"

definition op_print :: "log \<Rightarrow> unit io" where
  "op_print msg tr = (Inr (), tr @ [EvPrint msg])"

definition op_get :: "env \<Rightarrow> string \<Rightarrow> response io" where
  "op_get env url tr = (requests_get env url, tr @ [EvGet url])"

definition op_write :: "env \<Rightarrow> string \<Rightarrow> string \<Rightarrow> unit io" where
  "op_write env path content tr =
     ((case write_file env path content of None \<Rightarrow> Inr () | Some e \<Rightarrow> Inl e),
      tr @ [EvWrite path content])"

definition op_makedirs :: "env \<Rightarrow> string \<Rightarrow> unit io" where
  "op_makedirs env dir tr =
     ((case makedirs env dir of None \<Rightarrow> Inr () | Some e \<Rightarrow> Inl e), tr @ [EvMakedirs dir])"

definition op_read_json :: "env \<Rightarrow> string \<Rightarrow> json io" where
  "op_read_json env path tr = (read_json env path, tr @ [EvReadJson path])"

definition op_now :: "env \<Rightarrow> datetime io" where
  \<comment> \<open>\<open>datetime.now()\<close>: the next reading of the clock\<close>
  "op_now env tr = (Inr (clock env (count_list tr EvNow)), tr @ [EvNow])"

definition raise_for_status :: "response \<Rightarrow> exn option" where
  \<comment> \<open>\<open>Response.raise_for_status\<close>: \<open>HTTPError\<close> for a status from 400 to 599, else nothing\<close>
  "raise_for_status r =
     (if 400 \<le> status_code r \<and> status_code r < 600 then Some HTTPError else None)"

definition index_last :: "'a list \<Rightarrow> exn + 'a" where
  \<comment> \<open>\<open>xs[-1]\<close>\<close>
  "index_last xs = (case rev xs of [] \<Rightarrow> Inl IndexError | x # _ \<Rightarrow> Inr x)"

definition path_join :: "string \<Rightarrow> string \<Rightarrow> string" where
  \<comment> \<open>\<open>os.path.join(a, b)\<close> with the POSIX separator\<close>
  "path_join a b =
     (if startswith b ''/'' then b
      else if a = [] \<or> last a = CHR ''/'' then a @ b
      else a @ ''/'' @ b)"

definition pdf_path :: "string \<Rightarrow> string \<Rightarrow> string" where
  \<comment> \<open>\<open>filepath\<close> of \<open>download_pdf\<close>\<close>
  "pdf_path output_dir pdf_url = path_join output_dir (last (split pdf_url CHR ''/'') @ ''.pdf'')"

fun str_nat :: "nat \<Rightarrow> string" where
  "str_nat n =
     (if n < 10 then [char_of (48 + n)] else str_nat (n div 10) @ [char_of (48 + n mod 10)])"

definition str_int :: "int \<Rightarrow> string" where
  \<comment> \<open>\<open>str(i)\<close>, as the f-string formats the offset\<close>
  "str_int i = (if i < 0 then ''-'' @ str_nat (nat (- i)) else str_nat (nat i))"

section \<open>Configuration (downloader.py)\<close>

fun dict_get :: "json \<Rightarrow> string \<Rightarrow> json \<Rightarrow> exn + json" where
  \<comment> \<open>\<open>config_data.get(k, d)\<close>: only a JSON object has the method\<close>
  "dict_get (JObject kvs) k d = (case map_of kvs k of None \<Rightarrow> Inr d | Some v \<Rightarrow> Inr v)"
| "dict_get j k d = Inl AttributeError"

fun str_strip :: "json \<Rightarrow> exn + string" where
  \<comment> \<open>\<open>v.strip()\<close>: only a string has the method\<close>
  "str_strip (JString s) = Inr (strip s)"
| "str_strip j = Inl AttributeError"

definition load_config :: "env \<Rightarrow> string \<Rightarrow> string io" where
  "load_config env config_path =
     io_bind (op_read_json env config_path) (\<lambda>config_data.
     io_bind (lift (dict_get config_data ''url'' (JString ''''))) (\<lambda>v.
     io_bind (lift (str_strip v)) (\<lambda>url.
     if url = [] then raise ValueError else return url)))"

section \<open>Downloads (downloader.py)\<close>

definition download_pdf :: "env \<Rightarrow> string \<Rightarrow> string \<Rightarrow> bool io" where
  "download_pdf env pdf_url output_dir =
     io_bind
       (try_except
          (io_bind (op_get env pdf_url) (\<lambda>pdf_response.
           io_bind (check (raise_for_status pdf_response)) (\<lambda>_.
           return (Some pdf_response))))
          (\<lambda>e. io_bind (op_print (LogDownloadError pdf_url e)) (\<lambda>_. return None)))
       (\<lambda>got. case got of
          None \<Rightarrow> return False
        | Some pdf_response \<Rightarrow>
            io_bind (lift (index_last (split pdf_url CHR ''/''))) (\<lambda>pdf_id.
            let filename = pdf_id @ ''.pdf'';
                filepath = path_join output_dir filename
            in try_except
                 (io_bind (op_write env filepath (body pdf_response)) (\<lambda>_.
                  io_bind (op_print (LogSaved filepath)) (\<lambda>_.
                  return True)))
                 (\<lambda>e. io_bind (op_print (LogSaveError filename e)) (\<lambda>_. return False))))"

definition submit :: "env \<Rightarrow> string \<Rightarrow> future list \<Rightarrow> string \<Rightarrow> future list io" where
  \<comment> \<open>\<open>executor.submit\<close>: the call runs in a worker, its outcome is kept in the future\<close>
  "submit env output_dir futures url tr =
     (case download_pdf env url output_dir tr of (r, tr') \<Rightarrow> (Inr (futures @ [(url, r)]), tr'))"

definition count_step :: "nat \<Rightarrow> future \<Rightarrow> nat io" where
  \<comment> \<open>\<open>future.result()\<close> raises what the call raised\<close>
  "count_step download_count future =
     io_bind (lift (snd future)) (\<lambda>ok.
     if ok then return (download_count + 1) else return download_count)"

definition download_phase :: "env \<Rightarrow> string list \<Rightarrow> string \<Rightarrow> nat io" where
  "download_phase env download_tasks output_dir =
     (if download_tasks \<noteq> []
      then io_bind (io_foldl (submit env output_dir) download_tasks []) (\<lambda>futures.
           io_foldl count_step (as_completed env futures) 0)
      else return 0)"

section \<open>Pages (downloader.py)\<close>

definition result_step :: "datetime \<Rightarrow> string list \<Rightarrow> nat \<times> html \<Rightarrow> string list io" where
  "result_step cutoff_date download_tasks ir =
     (case ir of (idx, result) \<Rightarrow>
        io_bind (lift (extract_submission_date result)) (\<lambda>submission_date.
        case submission_date of
          None \<Rightarrow> io_bind (op_print (LogNoDate idx)) (\<lambda>_. return download_tasks)
        | Some d \<Rightarrow>
            io_bind (op_print (LogDate idx d)) (\<lambda>_.
            if d < cutoff_date
            then io_bind (op_print (LogOlder idx)) (\<lambda>_. return download_tasks)
            else (case extract_pdf_url result of
                    None \<Rightarrow>
                      io_bind (op_print (LogNoPdf idx)) (\<lambda>_.
                      let anchors = map (\<lambda>a. attr_get a ''href'' '''') (find_all result ''a'')
                      in io_bind (op_print (LogAnchors idx anchors)) (\<lambda>_.
                         return download_tasks))
                  | Some pdf_url \<Rightarrow>
                      io_bind (op_print (LogQueuing idx pdf_url)) (\<lambda>_.
                      return (download_tasks @ [pdf_url]))))))"

definition queue_results :: "datetime \<Rightarrow> html list \<Rightarrow> string list io" where
  \<comment> \<open>the loop over \<open>enumerate(results, start=1)\<close>\<close>
  "queue_results cutoff_date results =
     io_foldl (result_step cutoff_date) (enumerate 1 results) []"

definition process_page :: "env \<Rightarrow> string \<Rightarrow> int \<Rightarrow> datetime \<Rightarrow> string \<Rightarrow> nat io" where
  "process_page env base_url offset cutoff_date output_dir =
     (let paginated_url = base_url @ ''&start='' @ str_int offset in
      io_bind (op_print (LogFetching paginated_url)) (\<lambda>_.
      io_bind (op_get env paginated_url) (\<lambda>response.
      io_bind (check (raise_for_status response)) (\<lambda>_.
      let soup = parse_html env (body response);
          results = find_all_class soup ''li'' ''arxiv-result''
      in io_bind (op_print (LogFound (length results))) (\<lambda>_.
         io_bind (queue_results cutoff_date results) (\<lambda>download_tasks.
         download_phase env download_tasks output_dir))))))"

definition page_step :: "env \<Rightarrow> string \<Rightarrow> datetime \<Rightarrow> string \<Rightarrow> nat \<Rightarrow> int \<Rightarrow> nat io" where
  "page_step env base_url cutoff_date output_dir total_downloaded offset =
     io_bind (process_page env base_url offset cutoff_date output_dir) (\<lambda>n.
     return (total_downloaded + n))"

definition download_pdfs :: "env \<Rightarrow> string \<Rightarrow> string \<Rightarrow> int \<Rightarrow> int list option \<Rightarrow> nat io" where
  "download_pdfs env config_path output_dir days offsets =
     (let offsets = (case offsets of None \<Rightarrow> [0, 50] | Some l \<Rightarrow> l) in
      io_bind (load_config env config_path) (\<lambda>base_url.
      io_bind (op_makedirs env output_dir) (\<lambda>_.
      io_bind (op_now env) (\<lambda>now.
      io_bind (lift (minus_days now days)) (\<lambda>cutoff_date.
      io_bind (io_foldl (page_step env base_url cutoff_date output_dir) offsets 0)
        (\<lambda>total_downloaded.
      io_bind (op_print (LogDone output_dir total_downloaded)) (\<lambda>_.
      return total_downloaded)))))))"

section \<open>Names for the statements\<close>

definition page_url :: "string \<Rightarrow> int \<Rightarrow> string" where
  \<comment> \<open>\<open>paginated_url\<close> of \<open>process_page\<close>\<close>
  "page_url base_url offset = base_url @ ''&start='' @ str_int offset"

definition offsets_or_default :: "int list option \<Rightarrow> int list" where
  \<comment> \<open>\<open>offsets\<close> after the first statement of \<open>download_pdfs\<close>\<close>
  "offsets_or_default offsets = (case offsets of None \<Rightarrow> [0, 50] | Some l \<Rightarrow> l)"

fun is_print :: "event \<Rightarrow> bool" where
  "is_print (EvPrint m) = True"
| "is_print e = False"


section \<open>Example environments\<close>


definition status_env :: "nat \<Rightarrow> env" where
  "status_env code = \<lparr> read_json = (\<lambda>p. Inr (JObject [(''url'', JString ''https://arxiv.org/search/?query=x'')])),
     requests_get = (\<lambda>u. Inr \<lparr>status_code = code, body = ''''\<rparr>),
     write_file = (\<lambda>p c. None), makedirs = (\<lambda>d. None), clock = (\<lambda>k. timestamp 2025 3 10),
     parse_html = (\<lambda>s. Text s), as_completed = (\<lambda>fs. fs) \<rparr>"



definition date_block :: "string \<Rightarrow> html" where
  "date_block date_text =
     Elem ''li'' [(''class'', ''arxiv-result'')]
       [Elem ''p'' [(''class'', ''title is-5 mathjax'')] [Text ''A title''],
        Elem ''p'' [(''class'', ''is-size-7'')] [Text date_text]]"

definition listing_block :: "string \<Rightarrow> string \<Rightarrow> html" where
  "listing_block href date =
     Elem ''li'' [(''class'', ''arxiv-result'')]
       [Elem ''p'' [(''class'', ''list-title is-inline-block'')]
          [Elem ''a'' [(''href'', href)] [Text ''pdf'']],
        Elem ''p'' [(''class'', ''is-size-7'')]
          [Elem ''span'' [(''class'', ''has-text-weight-semibold'')] [Text ''Submitted''],
           Text date]]"

definition run_env :: env where
  "run_env = \<lparr>
     read_json = (\<lambda>p. Inr (JObject [(''url'', JString '' https://arxiv.org/search/?query=x '')])),
     requests_get = (\<lambda>u.
        if u = ''https://arxiv.org/search/?query=x&start=0''
        then Inr \<lparr>status_code = 200, body = ''page 0''\<rparr>
        else if u = ''https://arxiv.org/search/?query=x&start=50''
        then Inr \<lparr>status_code = 200, body = ''page 50''\<rparr>
        else if u = ''https://arxiv.org/pdf/2503.00001''
        then Inr \<lparr>status_code = 200, body = ''%PDF''\<rparr>
        else Inl ConnectionError),
     write_file = (\<lambda>p c. None), makedirs = (\<lambda>d. None),
     clock = (\<lambda>k. timestamp 2025 3 10 + int k),
     parse_html = (\<lambda>s.
        if s = ''page 0''
        then Elem ''html'' []
               [listing_block ''/pdf/2503.00001'' '' 9 March, 2025'',
                listing_block ''/pdf/2502.00002'' '' 1 February, 2025'']
        else Elem ''html'' [] []),
     as_completed = rev \<rparr>"

definition outage_env :: env where
  "outage_env = run_env \<lparr> requests_get := (\<lambda>u.
        if u = ''https://arxiv.org/search/?query=x&start=50'' then Inl ConnectionError
        else requests_get run_env u) \<rparr>"

definition config_env :: "json \<Rightarrow> env" where
  "config_env j = run_env \<lparr> read_json := (\<lambda>p. Inr j) \<rparr>"


section \<open>Facts about the string functions\<close>

lemma find_from_range: "find_from sub s i = - 1 \<or> int i \<le> find_from sub s i"
proof (induction s arbitrary: i)
  case Nil
  then show ?case by simp
next
  case (Cons c cs)
  from Cons.IH [of "Suc i"] show ?case by auto
qed

lemma find_from_none:
  "(\<forall>j\<le>length s. \<not> prefix sub (drop j s)) \<Longrightarrow> find_from sub s i = - 1"
proof (induction s arbitrary: i)
  case Nil
  then show ?case by auto
next
  case (Cons c cs)
  have head: "\<not> prefix sub (c # cs)"
    using Cons.prems [rule_format, of 0] by simp
  have "\<forall>j\<le>length cs. \<not> prefix sub (drop j cs)"
  proof (intro allI impI)
    fix j assume "j \<le> length cs"
    then show "\<not> prefix sub (drop j cs)"
      using Cons.prems [rule_format, of "Suc j"] by simp
  qed
  with Cons.IH head show ?case by simp
qed

lemma find_from_first:
  "k \<le> length s \<Longrightarrow> prefix sub (drop k s) \<Longrightarrow> \<forall>j<k. \<not> prefix sub (drop j s)
   \<Longrightarrow> find_from sub s i = int (i + k)"
proof (induction s arbitrary: i k)
  case Nil
  then show ?case by simp
next
  case (Cons c cs)
  show ?case
  proof (cases k)
    case 0
    with Cons.prems show ?thesis by simp
  next
    case (Suc k')
    have head: "\<not> prefix sub (c # cs)"
      using Cons.prems(3) [rule_format, of 0] Suc by simp
    have rest: "\<forall>j<k'. \<not> prefix sub (drop j cs)"
    proof (intro allI impI)
      fix j assume "j < k'"
      then show "\<not> prefix sub (drop j cs)"
        using Cons.prems(3) [rule_format, of "Suc j"] Suc by simp
    qed
    have "find_from sub cs (Suc i) = int (Suc i + k')"
      using Cons.IH [of k' "Suc i"] Cons.prems(1,2) Suc rest by simp
    with head Suc show ?thesis by simp
  qed
qed

lemma py_find_absent:
  "\<not> (\<exists>j. occurs_at sub s j) \<Longrightarrow> py_find s sub = - 1"
  unfolding py_find_def occurs_at_def by (rule find_from_none) blast

lemma py_find_present:
  assumes "occurs_at sub s j"
  shows "\<exists>k. py_find s sub = int k \<and> occurs_at sub s k \<and> (\<forall>j<k. \<not> occurs_at sub s j)"
proof -
  define k where "k = (LEAST j. occurs_at sub s j)"
  have occ: "occurs_at sub s k"
    unfolding k_def using assms by (rule LeastI)
  have least: "\<forall>j<k. \<not> occurs_at sub s j"
    unfolding k_def using not_less_Least by blast
  have "\<forall>j<k. \<not> prefix sub (drop j s)"
  proof (intro allI impI)
    fix j assume "j < k"
    with least occ show "\<not> prefix sub (drop j s)"
      unfolding occurs_at_def by auto
  qed
  with occ have "find_from sub s 0 = int (0 + k)"
    unfolding occurs_at_def by (intro find_from_first) auto
  with occ least show ?thesis
    unfolding py_find_def by auto
qed

section \<open>Truncation at the reference marker\<close>

text \<open>
  C9. \<open>extract_section\<close> returns the flattened text cut at the first occurrence of the
  marker \<open>References\<close>: the result is the part of the flattened text before the lowest
  index at which the marker occurs. When the marker does not occur, \<open>find\<close> yields
  \<open>-1\<close>, which is no position of the marker, and the slice \<open>[:-1]\<close> drops the last
  character of the flattened text instead of keeping it whole.
\<close>

theorem extract_section_truncates:
  "(occurs_at ref_marker (flattened doc) j \<longrightarrow>
      (\<exists>k. py_find (flattened doc) ref_marker = int k
         \<and> occurs_at ref_marker (flattened doc) k
         \<and> (\<forall>i<k. \<not> occurs_at ref_marker (flattened doc) i)
         \<and> extract_section doc = take k (flattened doc)
         \<and> flattened doc = extract_section doc @ ref_marker
              @ drop (k + length ref_marker) (flattened doc)))
   \<and> ((\<forall>i. \<not> occurs_at ref_marker (flattened doc) i) \<longrightarrow>
      py_find (flattened doc) ref_marker = - 1
      \<and> extract_section doc = butlast (flattened doc))"
proof (intro conjI impI)
  assume "occurs_at ref_marker (flattened doc) j"
  then obtain k where k: "py_find (flattened doc) ref_marker = int k"
      "occurs_at ref_marker (flattened doc) k"
      "\<forall>i<k. \<not> occurs_at ref_marker (flattened doc) i"
    using py_find_present by blast
  have cut: "extract_section doc = take k (flattened doc)"
    using k(1) by (simp add: extract_section_def flattened_def slice_to_def Let_def)
  from k(2) obtain post where post: "drop k (flattened doc) = ref_marker @ post"
    unfolding occurs_at_def prefix_def by blast
  then have "drop (length ref_marker) (drop k (flattened doc)) = post"
    by simp
  then have "post = drop (k + length ref_marker) (flattened doc)"
    by (simp add: add.commute)
  moreover have "flattened doc = take k (flattened doc) @ drop k (flattened doc)"
    by simp
  ultimately have "flattened doc = extract_section doc @ ref_marker
      @ drop (k + length ref_marker) (flattened doc)"
    using cut post by metis
  with k cut show "\<exists>k. py_find (flattened doc) ref_marker = int k
         \<and> occurs_at ref_marker (flattened doc) k
         \<and> (\<forall>i<k. \<not> occurs_at ref_marker (flattened doc) i)
         \<and> extract_section doc = take k (flattened doc)
         \<and> flattened doc = extract_section doc @ ref_marker
              @ drop (k + length ref_marker) (flattened doc)"
    by blast
next
  assume "\<forall>i. \<not> occurs_at ref_marker (flattened doc) i"
  then show "py_find (flattened doc) ref_marker = - 1"
    by (intro py_find_absent) blast
next
  assume "\<forall>i. \<not> occurs_at ref_marker (flattened doc) i"
  then have "py_find (flattened doc) ref_marker = - 1"
    by (intro py_find_absent) blast
  then show "extract_section doc = butlast (flattened doc)"
    by (simp add: extract_section_def flattened_def slice_to_def butlast_conv_take
        nat_diff_distrib' Let_def)
qed

theorem extract_section_truncates_witness:
  "occurs_at ref_marker (flattened [''Intro\<newline>References [1]'']) 6
   \<and> extract_section [''Intro\<newline>References [1]''] = ''Intro ''
   \<and> (\<forall>i. \<not> occurs_at ref_marker (flattened [''abc'']) i)
   \<and> py_find (flattened [''abc'']) ref_marker = - 1
   \<and> extract_section [''abc''] = ''abc''"
proof -
  let ?d = "[''Intro\<newline>References [1]'']"
  have fl: "flattened ?d = ''Intro References [1] ''"
    by (simp add: flattened_def replace_char_def)
  have h1: "occurs_at ref_marker (flattened ?d) 6"
    by (simp add: fl occurs_at_def ref_marker_def)
  have h2: "\<forall>i. \<not> occurs_at ref_marker (flattened [''abc'']) i"
  proof
    fix i :: nat
    have "flattened [''abc''] = ''abc ''"
      by (simp add: flattened_def replace_char_def)
    moreover have "i \<le> 4 \<Longrightarrow> i = 0 \<or> i = 1 \<or> i = 2 \<or> i = 3 \<or> i = 4" by arith
    ultimately show "\<not> occurs_at ref_marker (flattened [''abc'']) i"
      by (auto simp: occurs_at_def ref_marker_def)
  qed
  have v1: "extract_section ?d = ''Intro ''"
    by (simp add: extract_section_def replace_char_def py_find_def ref_marker_def slice_to_def)
  have "extract_section [''abc''] = butlast (flattened [''abc''])"
    and "py_find (flattened [''abc'']) ref_marker = - 1"
    using extract_section_truncates [of "[''abc'']" 0] h2 by blast+
  moreover have "butlast (flattened [''abc'']) = ''abc''"
    by (simp add: flattened_def replace_char_def)
  moreover note extract_section_truncates [of ?d 6, THEN conjunct1, rule_format, OF h1]
  ultimately show ?thesis using h1 h2 v1 by simp
qed

section \<open>The download of one payload\<close>

lemmas io_defs = io_bind_def return_def raise_def try_except_def lift_def check_def
  op_print_def op_get_def op_write_def op_makedirs_def op_read_json_def op_now_def

lemma split_on_nonempty: "split_on d acc s \<noteq> []"
  by (induction s arbitrary: acc) auto

lemma index_last_split: "index_last (split s d) = Inr (last (split s d))"
proof -
  have "split s d \<noteq> []" by (simp add: split_def split_on_nonempty)
  then obtain x xs where "rev (split s d) = x # xs"
    by (cases "rev (split s d)") auto
  moreover from this have "last (split s d) = x"
    by (metis list.sel(1) hd_rev)
  ultimately show ?thesis by (simp add: index_last_def)
qed

lemma download_pdf_transport:
  "requests_get env url = Inl e \<Longrightarrow>
   download_pdf env url dir tr = (Inr False, tr @ [EvGet url, EvPrint (LogDownloadError url e)])"
  by (simp add: download_pdf_def io_defs)

lemma download_pdf_status:
  "requests_get env url = Inr r \<Longrightarrow> raise_for_status r = Some e \<Longrightarrow>
   download_pdf env url dir tr = (Inr False, tr @ [EvGet url, EvPrint (LogDownloadError url e)])"
  by (simp add: download_pdf_def io_defs)

lemma download_pdf_write_fails:
  "requests_get env url = Inr r \<Longrightarrow> raise_for_status r = None \<Longrightarrow>
   write_file env (pdf_path dir url) (body r) = Some e \<Longrightarrow>
   download_pdf env url dir tr =
     (Inr False, tr @ [EvGet url, EvWrite (pdf_path dir url) (body r),
        EvPrint (LogSaveError (last (split url CHR ''/'') @ ''.pdf'') e)])"
  by (simp add: download_pdf_def io_defs index_last_split pdf_path_def Let_def)

lemma download_pdf_saved:
  "requests_get env url = Inr r \<Longrightarrow> raise_for_status r = None \<Longrightarrow>
   write_file env (pdf_path dir url) (body r) = None \<Longrightarrow>
   download_pdf env url dir tr =
     (Inr True, tr @ [EvGet url, EvWrite (pdf_path dir url) (body r),
        EvPrint (LogSaved (pdf_path dir url))])"
  by (simp add: download_pdf_def io_defs index_last_split pdf_path_def Let_def)

lemma download_pdf_cases:
  obtains (transport) e where "requests_get env url = Inl e"
  | (status) r e where "requests_get env url = Inr r" and "raise_for_status r = Some e"
  | (wfail) r e where "requests_get env url = Inr r" and "raise_for_status r = None"
      and "write_file env (pdf_path dir url) (body r) = Some e"
  | (saved) r where "requests_get env url = Inr r" and "raise_for_status r = None"
      and "write_file env (pdf_path dir url) (body r) = None"
  by (cases "requests_get env url"; cases "raise_for_status (projr (requests_get env url))";
      cases "write_file env (pdf_path dir url) (body (projr (requests_get env url)))") auto

lemma download_pdf_run:
  "\<exists>b evs. download_pdf env url dir tr = (Inr b, tr @ EvGet url # evs)
     \<and> download_pdf env url dir [] = (Inr b, EvGet url # evs) \<and> EvNow \<notin> set evs"
proof (cases rule: download_pdf_cases [where env=env and url=url and dir=dir])
  case (transport e)
  then show ?thesis using download_pdf_transport [OF transport] by auto
next
  case (status r e)
  then show ?thesis using download_pdf_status [OF status] by auto
next
  case (wfail r e)
  then show ?thesis using download_pdf_write_fails [OF wfail] by auto
next
  case (saved r)
  then show ?thesis using download_pdf_saved [OF saved] by auto
qed

lemma submit_loop:
  "io_foldl (submit env dir) tasks fs tr =
     (Inr (fs @ map (\<lambda>u. (u, fst (download_pdf env u dir []))) tasks),
      tr @ concat (map (\<lambda>u. snd (download_pdf env u dir [])) tasks))"
proof (induction tasks arbitrary: fs tr)
  case Nil
  then show ?case by (simp add: return_def)
next
  case (Cons u us)
  obtain b evs where run: "download_pdf env u dir tr = (Inr b, tr @ EvGet u # evs)"
      "download_pdf env u dir [] = (Inr b, EvGet u # evs)"
    using download_pdf_run [of env u dir tr] by blast
  have "submit env dir fs u tr = (Inr (fs @ [(u, Inr b)]), tr @ EvGet u # evs)"
    by (simp add: submit_def run)
  then show ?case
    by (simp add: io_bind_def Cons.IH run)
qed

lemma count_loop:
  "\<forall>f\<in>set fs. \<exists>b. snd f = Inr b \<Longrightarrow>
   io_foldl count_step fs n tr = (Inr (n + length (filter (\<lambda>f. snd f = Inr True) fs)), tr)"
proof (induction fs arbitrary: n)
  case Nil
  then show ?case by (simp add: return_def)
next
  case (Cons f fs)
  then obtain b where b: "snd f = Inr b" by auto
  have "count_step n f tr = (Inr (if b then n + 1 else n), tr)"
    by (simp add: count_step_def io_defs b)
  moreover have "\<forall>f\<in>set fs. \<exists>b. snd f = Inr b" using Cons.prems by simp
  ultimately show ?case
    using Cons.IH [of "if b then n + 1 else n"] b by (simp add: io_bind_def)
qed

lemma filter_length_perm:
  "mset xs = mset ys \<Longrightarrow> length (filter P xs) = length (filter P ys)"
  by (metis mset_filter size_mset)

lemma download_phase_run:
  assumes perm: "\<And>fs. mset (as_completed env fs) = mset fs"
  shows "download_phase env tasks dir tr =
     (Inr (length (filter (\<lambda>u. fst (download_pdf env u dir []) = Inr True) tasks)),
      tr @ concat (map (\<lambda>u. snd (download_pdf env u dir [])) tasks))"
proof (cases "tasks = []")
  case True
  then show ?thesis by (simp add: download_phase_def return_def)
next
  case False
  let ?fs = "map (\<lambda>u. (u, fst (download_pdf env u dir []))) tasks"
  have inr: "\<forall>f\<in>set ?fs. \<exists>b. snd f = Inr b"
  proof
    fix f assume "f \<in> set ?fs"
    then obtain u where "f = (u, fst (download_pdf env u dir []))" by auto
    moreover obtain b evs where "download_pdf env u dir [] = (Inr b, EvGet u # evs)"
      using download_pdf_run [of env u dir "[]"] by blast
    ultimately show "\<exists>b. snd f = Inr b" by simp
  qed
  have "set (as_completed env ?fs) = set ?fs"
    using perm [of ?fs] by (rule mset_eq_setD)
  with inr have "\<forall>f\<in>set (as_completed env ?fs). \<exists>b. snd f = Inr b" by simp
  then have "io_foldl count_step (as_completed env ?fs) 0 (tr @ concat (map (\<lambda>u. snd (download_pdf env u dir [])) tasks))
     = (Inr (0 + length (filter (\<lambda>f. snd f = Inr True) (as_completed env ?fs))),
        tr @ concat (map (\<lambda>u. snd (download_pdf env u dir [])) tasks))"
    by (rule count_loop)
  moreover have "length (filter (\<lambda>f. snd f = Inr True) (as_completed env ?fs))
      = length (filter (\<lambda>f. snd f = Inr True) ?fs)"
    using perm [of ?fs] by (rule filter_length_perm)
  moreover have "length (filter (\<lambda>f. snd f = Inr True) ?fs)
      = length (filter (\<lambda>u. fst (download_pdf env u dir []) = Inr True) tasks)"
    by (simp add: filter_map comp_def)
  ultimately show ?thesis
    using False by (simp add: download_phase_def io_bind_def submit_loop [of env dir tasks "[]", simplified])
qed

section \<open>The download phase of a page\<close>







section \<open>Result extraction\<close>

lemma datetime_ymd_error: "datetime_ymd y m d = Inl e \<Longrightarrow> e = ValueError"
  by (simp add: datetime_ymd_def split: if_splits)

lemma index_of_error: "index_of x ys i = Inl e \<Longrightarrow> e = ValueError"
  by (induction ys arbitrary: i) (auto split: if_splits)

lemma strptime_error: "strptime s = Inl e \<Longrightarrow> e = ValueError"
  unfolding strptime_def
  by (auto split: list.splits prod.splits if_splits sum.splits
      dest: datetime_ymd_error index_of_error)

lemma extract_submission_date_total: "\<exists>r. extract_submission_date b = Inr r"
proof (cases "find_class b ''p'' ''is-size-7''")
  case None
  then show ?thesis by (simp add: extract_submission_date_def)
next
  case (Some p)
  show ?thesis
  proof (cases "re_search (get_text_strip p)")
    case None
    with Some show ?thesis by (simp add: extract_submission_date_def)
  next
    case (Some g)
    show ?thesis
    proof (cases "strptime g")
      case (Inl e)
      then have "e = ValueError" by (rule strptime_error)
      with Inl Some \<open>find_class b ''p'' ''is-size-7'' = Some p\<close> show ?thesis
        by (simp add: extract_submission_date_def)
    next
      case (Inr t)
      with Some \<open>find_class b ''p'' ''is-size-7'' = Some p\<close> show ?thesis
        by (simp add: extract_submission_date_def)
    qed
  qed
qed




section \<open>The selection of the results of a page\<close>

lemma result_step_run:
  "\<exists>evs. result_step cutoff tasks (idx, r) tr =
      (Inr (tasks @ List.map_filter extract_pdf_url
          (filter (\<lambda>r. case extract_submission_date r of
                          Inr (Some d) \<Rightarrow> cutoff \<le> d | _ \<Rightarrow> False) [r])),
       tr @ evs) \<and> list_all is_print evs"
proof -
  obtain sd where sd: "extract_submission_date r = Inr sd"
    using extract_submission_date_total by blast
  show ?thesis
  proof (cases sd)
    case None
    with sd show ?thesis
      by (simp add: result_step_def io_defs map_filter_simps)
  next
    case (Some d)
    show ?thesis
    proof (cases "d < cutoff")
      case True
      with sd Some show ?thesis
        by (simp add: result_step_def io_defs map_filter_simps)
    next
      case False
      with sd Some show ?thesis
        by (cases "extract_pdf_url r")
           (simp_all add: result_step_def io_defs map_filter_simps Let_def)
    qed
  qed
qed

lemma map_filter_append:
  "List.map_filter f (xs @ ys) = List.map_filter f xs @ List.map_filter f ys"
  by (simp add: List.map_filter_def)

lemma queue_loop_run:
  "\<exists>evs. io_foldl (result_step cutoff) (enumerate n results) tasks tr =
      (Inr (tasks @ List.map_filter extract_pdf_url
          (filter (\<lambda>r. case extract_submission_date r of
                          Inr (Some d) \<Rightarrow> cutoff \<le> d | _ \<Rightarrow> False) results)),
       tr @ evs) \<and> list_all is_print evs"
proof (induction results arbitrary: n tasks tr)
  case Nil
  then show ?case by (simp add: return_def map_filter_simps)
next
  case (Cons r rs)
  let ?keep = "\<lambda>r. case extract_submission_date r of
                          Inr (Some d) \<Rightarrow> cutoff \<le> d | _ \<Rightarrow> False"
  obtain evs where step: "result_step cutoff tasks (n, r) tr =
      (Inr (tasks @ List.map_filter extract_pdf_url (filter ?keep [r])), tr @ evs)"
      and p: "list_all is_print evs"
    using result_step_run [of cutoff tasks n r tr] by blast
  obtain evs' where rest: "io_foldl (result_step cutoff) (enumerate (Suc n) rs)
        (tasks @ List.map_filter extract_pdf_url (filter ?keep [r])) (tr @ evs) =
      (Inr ((tasks @ List.map_filter extract_pdf_url (filter ?keep [r]))
          @ List.map_filter extract_pdf_url (filter ?keep rs)), (tr @ evs) @ evs')"
      and p': "list_all is_print evs'"
    using Cons.IH [of "Suc n" "tasks @ List.map_filter extract_pdf_url (filter ?keep [r])"
        "tr @ evs"] by blast
  have "filter ?keep (r # rs) = filter ?keep [r] @ filter ?keep rs"
    by simp
  then have "List.map_filter extract_pdf_url (filter ?keep (r # rs))
      = List.map_filter extract_pdf_url (filter ?keep [r])
        @ List.map_filter extract_pdf_url (filter ?keep rs)"
    by (simp only: map_filter_append)
  with step rest p p' show ?case
    by (simp add: io_bind_def del: filter.simps)
qed


section \<open>The submission date\<close>

lemma rep_done: "rep P 0 (Some 0) s = [s]"
  by (cases s) simp_all

lemma cls [simp]:
  "is_space CHR '' ''" "\<not> is_space CHR ''4''" "\<not> is_space CHR ''2''" "\<not> is_space CHR ''M''"
  "is_digit CHR ''4''" "is_digit CHR ''2''" "is_digit CHR ''0''" "is_digit CHR ''5''"
  "\<not> is_digit CHR '' ''" "\<not> is_digit CHR ''M''"
  "is_word CHR ''M''" "is_word CHR ''a''" "is_word CHR ''r''" "is_word CHR ''c''"
  "is_word CHR ''h''" "\<not> is_word CHR '',''" "\<not> is_space CHR '',''"
  by (simp_all add: is_space_def is_digit_def is_word_def)

lemma date_pattern_space:
  "date_pattern (''Submitted 4 March, 2025'' @ post) = [''4 March, 2025'']"
  by (simp add: date_pattern_def date_group_def lit_def rep_done)

lemma date_pattern_nospace:
  "date_pattern (''Submitted4 March, 2025'' @ post) = [''4 March, 2025'']"
  by (simp add: date_pattern_def date_group_def lit_def rep_done)

lemma date_pattern_no_marker: "\<not> prefix ''Submitted'' s \<Longrightarrow> date_pattern s = []"
  by (simp add: date_pattern_def lit_def)

lemma re_search_skip:
  "\<forall>j<length pre. \<not> prefix ''Submitted'' (drop j (pre @ rest)) \<Longrightarrow> rest \<noteq> [] \<Longrightarrow>
   re_search (pre @ rest) = re_search rest"
proof (induction pre)
  case Nil
  then show ?case by simp
next
  case (Cons c cs)
  have head: "\<not> prefix ''Submitted'' (c # cs @ rest)"
    using Cons.prems(1) [rule_format, of 0] by simp
  have "\<forall>j<length cs. \<not> prefix ''Submitted'' (drop j (cs @ rest))"
  proof (intro allI impI)
    fix j assume "j < length cs"
    then show "\<not> prefix ''Submitted'' (drop j (cs @ rest))"
      using Cons.prems(1) [rule_format, of "Suc j"] by simp
  qed
  with Cons.IH Cons.prems(2) have "re_search (cs @ rest) = re_search rest" by simp
  with head show ?case by (simp add: date_pattern_no_marker del: prefix_code)
qed

lemma re_search_no_marker:
  "\<forall>j. \<not> occurs_at ''Submitted'' s j \<Longrightarrow> re_search s = None"
proof (induction s)
  case Nil
  have "\<not> prefix ''Submitted'' []" by simp
  then show ?case by (simp add: date_pattern_no_marker del: prefix_code)
next
  case (Cons c cs)
  have head: "\<not> prefix ''Submitted'' (c # cs)"
    using Cons.prems [rule_format, of 0] by (simp add: occurs_at_def)
  have "\<forall>j. \<not> occurs_at ''Submitted'' cs j"
  proof
    fix j
    show "\<not> occurs_at ''Submitted'' cs j"
      using Cons.prems [rule_format, of "Suc j"] by (simp add: occurs_at_def)
  qed
  with Cons.IH have "re_search cs = None" by simp
  with head show ?case by (simp add: date_pattern_no_marker del: prefix_code)
qed

lemma re_search_first_marker:
  assumes "\<forall>j<length pre. \<not> occurs_at ''Submitted'' (pre @ mark @ post) j"
    and "date_pattern (mark @ post) = [g]" and "mark \<noteq> []"
  shows "re_search (pre @ mark @ post) = Some g"
proof -
  have "\<forall>j<length pre. \<not> prefix ''Submitted'' (drop j (pre @ mark @ post))"
    using assms(1) by (auto simp: occurs_at_def)
  then have "re_search (pre @ mark @ post) = re_search (mark @ post)"
    using assms(3) by (intro re_search_skip) auto
  moreover obtain c cs where "mark @ post = c # cs"
    using assms(3) by (cases "mark @ post") auto
  ultimately show ?thesis using assms(2) by simp
qed

lemma strptime_example: "strptime ''4 March, 2025'' = Inr (timestamp 2025 3 4)"
  by code_simp

lemma extract_submission_date_found:
  "find_class block ''p'' ''is-size-7'' = Some p \<Longrightarrow>
   re_search (get_text_strip p) = Some g \<Longrightarrow> strptime g = Inr t \<Longrightarrow>
   extract_submission_date block = Inr (Some t)"
  by (simp add: extract_submission_date_def)

text \<open>
  C3, as stated, fails: the descriptive text below contains \<open>Submitted 4 March, 2025\<close>,
  but the pattern is searched from the left, so the date after the first marker is the
  one returned.
\<close>

theorem extract_submission_date_counterexample:
  "find_class (date_block ''Submitted 1 May, 2024; Submitted 4 March, 2025'') ''p'' ''is-size-7''
     = Some (Elem ''p'' [(''class'', ''is-size-7'')]
         [Text ''Submitted 1 May, 2024; Submitted 4 March, 2025''])
   \<and> get_text_strip (Elem ''p'' [(''class'', ''is-size-7'')]
         [Text ''Submitted 1 May, 2024; Submitted 4 March, 2025''])
     = ''Submitted 1 May, 2024; Submitted 4 March, 2025''
   \<and> contains ''Submitted 1 May, 2024; Submitted 4 March, 2025'' ''Submitted 4 March, 2025''
   \<and> extract_submission_date (date_block ''Submitted 1 May, 2024; Submitted 4 March, 2025'')
     = Inr (Some (timestamp 2024 5 1))
   \<and> timestamp 2024 5 1 \<noteq> timestamp 2025 3 4"
  by code_simp

text \<open>
  C3, amended. When the first occurrence of the marker \<open>Submitted\<close> in the descriptive
  text of a block starts \<open>Submitted 4 March, 2025\<close>, \<open>extract_submission_date\<close> yields
  the timestamp of 2025-03-04, and the same for the variant \<open>Submitted4 March, 2025\<close>
  without the space. The function never raises: for every block the result is a value,
  and it is the absent date when the paragraph or the marker is missing or when the
  captured substring does not parse as day, full month name and year.
\<close>

theorem extract_submission_date_first_marker:
  "(find_class block ''p'' ''is-size-7'' = Some p
      \<and> get_text_strip p = pre @ ''Submitted 4 March, 2025'' @ post
      \<and> (\<forall>j<length pre. \<not> occurs_at ''Submitted'' (get_text_strip p) j)
      \<longrightarrow> extract_submission_date block = Inr (Some (timestamp 2025 3 4)))
   \<and> (find_class block ''p'' ''is-size-7'' = Some p
      \<and> get_text_strip p = pre @ ''Submitted4 March, 2025'' @ post
      \<and> (\<forall>j<length pre. \<not> occurs_at ''Submitted'' (get_text_strip p) j)
      \<longrightarrow> extract_submission_date block = Inr (Some (timestamp 2025 3 4)))
   \<and> (\<exists>r. extract_submission_date block = Inr r)
   \<and> (find_class block ''p'' ''is-size-7'' = None
      \<longrightarrow> extract_submission_date block = Inr None)
   \<and> (find_class block ''p'' ''is-size-7'' = Some p
      \<and> (\<forall>j. \<not> occurs_at ''Submitted'' (get_text_strip p) j)
      \<longrightarrow> extract_submission_date block = Inr None)
   \<and> (find_class block ''p'' ''is-size-7'' = Some p
      \<and> re_search (get_text_strip p) = Some g \<and> strptime g = Inl e
      \<longrightarrow> extract_submission_date block = Inr None)"
proof (intro conjI impI)
  assume a: "find_class block ''p'' ''is-size-7'' = Some p
      \<and> get_text_strip p = pre @ ''Submitted 4 March, 2025'' @ post
      \<and> (\<forall>j<length pre. \<not> occurs_at ''Submitted'' (get_text_strip p) j)"
  then have "re_search (pre @ ''Submitted 4 March, 2025'' @ post) = Some ''4 March, 2025''"
    by (intro re_search_first_marker date_pattern_space) auto
  with a show "extract_submission_date block = Inr (Some (timestamp 2025 3 4))"
    by (intro extract_submission_date_found [of block p "''4 March, 2025''"] strptime_example)
       auto
next
  assume a: "find_class block ''p'' ''is-size-7'' = Some p
      \<and> get_text_strip p = pre @ ''Submitted4 March, 2025'' @ post
      \<and> (\<forall>j<length pre. \<not> occurs_at ''Submitted'' (get_text_strip p) j)"
  then have "re_search (pre @ ''Submitted4 March, 2025'' @ post) = Some ''4 March, 2025''"
    by (intro re_search_first_marker date_pattern_nospace) auto
  with a show "extract_submission_date block = Inr (Some (timestamp 2025 3 4))"
    by (intro extract_submission_date_found [of block p "''4 March, 2025''"] strptime_example)
       auto
next
  show "\<exists>r. extract_submission_date block = Inr r"
    by (rule extract_submission_date_total)
next
  assume "find_class block ''p'' ''is-size-7'' = None"
  then show "extract_submission_date block = Inr None"
    by (simp add: extract_submission_date_def)
next
  assume "find_class block ''p'' ''is-size-7'' = Some p
      \<and> (\<forall>j. \<not> occurs_at ''Submitted'' (get_text_strip p) j)"
  then show "extract_submission_date block = Inr None"
    by (simp add: extract_submission_date_def re_search_no_marker)
next
  assume a: "find_class block ''p'' ''is-size-7'' = Some p
      \<and> re_search (get_text_strip p) = Some g \<and> strptime g = Inl e"
  then have "e = ValueError" by (intro strptime_error [of g]) simp
  with a show "extract_submission_date block = Inr None"
    by (simp add: extract_submission_date_def)
qed

lemma occurs_at_py_find: "occurs_at sub s j \<Longrightarrow> 0 \<le> py_find s sub"
  using py_find_present [of sub s j] by auto

theorem extract_submission_date_first_marker_witness:
  "extract_submission_date (date_block ''v2 Submitted 4 March, 2025; announced'')
     = Inr (Some (timestamp 2025 3 4))
   \<and> extract_submission_date
       (listing_block ''/pdf/2503.03395'' '' 4 March, 2025; originally announced March 2025.'')
     = Inr (Some (timestamp 2025 3 4))
   \<and> extract_submission_date (Elem ''li'' [] []) = Inr None
   \<and> extract_submission_date (date_block ''originally announced March 2025.'') = Inr None
   \<and> extract_submission_date (date_block ''Submitted 31 February, 2025'') = Inr None"
proof -
  note t = extract_submission_date_first_marker
  let ?p1 = "Elem ''p'' [(''class'', ''is-size-7'')] [Text ''v2 Submitted 4 March, 2025; announced'']"
  have f1: "find_class (date_block ''v2 Submitted 4 March, 2025; announced'') ''p'' ''is-size-7''
      = Some ?p1"
    by code_simp
  have g1: "get_text_strip ?p1 = ''v2 '' @ ''Submitted 4 March, 2025'' @ ''; announced''"
    by code_simp
  have n1: "\<forall>j<length ''v2 ''. \<not> occurs_at ''Submitted'' (get_text_strip ?p1) j"
  proof (intro allI impI)
    fix j :: nat assume "j < length ''v2 ''"
    then have "j = 0 \<or> j = 1 \<or> j = 2" by auto
    then show "\<not> occurs_at ''Submitted'' (get_text_strip ?p1) j"
      unfolding g1 by (auto simp: occurs_at_def)
  qed
  have 1: "extract_submission_date (date_block ''v2 Submitted 4 March, 2025; announced'')
     = Inr (Some (timestamp 2025 3 4))"
    using t [where block = "date_block ''v2 Submitted 4 March, 2025; announced''" and p = ?p1
        and pre = "''v2 ''" and post = "''; announced''", THEN conjunct1] f1 g1 n1 by blast
  let ?b2 = "listing_block ''/pdf/2503.03395''
      '' 4 March, 2025; originally announced March 2025.''"
  let ?p2 = "Elem ''p'' [(''class'', ''is-size-7'')]
          [Elem ''span'' [(''class'', ''has-text-weight-semibold'')] [Text ''Submitted''],
           Text '' 4 March, 2025; originally announced March 2025.'']"
  have f2: "find_class ?b2 ''p'' ''is-size-7'' = Some ?p2"
    by code_simp
  have g2: "get_text_strip ?p2
      = [] @ ''Submitted4 March, 2025'' @ ''; originally announced March 2025.''"
    by code_simp
  have n2: "\<forall>j<length ([] :: string). \<not> occurs_at ''Submitted'' (get_text_strip ?p2) j"
    by simp
  have 2: "extract_submission_date ?b2 = Inr (Some (timestamp 2025 3 4))"
    using t [where block = ?b2 and p = ?p2 and pre = "[]"
        and post = "''; originally announced March 2025.''", THEN conjunct2, THEN conjunct1] f2 g2 n2 by blast
  have f3: "find_class (Elem ''li'' [] []) ''p'' ''is-size-7'' = None"
    by code_simp
  have 3: "extract_submission_date (Elem ''li'' [] []) = Inr None"
    using t [where block = "Elem ''li'' [] []", THEN conjunct2, THEN conjunct2, THEN conjunct2,
        THEN conjunct1] f3 by blast
  let ?p4 = "Elem ''p'' [(''class'', ''is-size-7'')] [Text ''originally announced March 2025.'']"
  have f4: "find_class (date_block ''originally announced March 2025.'') ''p'' ''is-size-7''
      = Some ?p4"
    by code_simp
  have "py_find (get_text_strip ?p4) ''Submitted'' = - 1"
    by code_simp
  then have n4: "\<forall>j. \<not> occurs_at ''Submitted'' (get_text_strip ?p4) j"
    using occurs_at_py_find [of "''Submitted''" "get_text_strip ?p4"] by auto
  have 4: "extract_submission_date (date_block ''originally announced March 2025.'') = Inr None"
    using t [where block = "date_block ''originally announced March 2025.''" and p = ?p4,
        THEN conjunct2,
        THEN conjunct2, THEN conjunct2, THEN conjunct2, THEN conjunct1] f4 n4 by blast
  let ?p5 = "Elem ''p'' [(''class'', ''is-size-7'')] [Text ''Submitted 31 February, 2025'']"
  have f5: "find_class (date_block ''Submitted 31 February, 2025'') ''p'' ''is-size-7''
      = Some ?p5"
    by code_simp
  have g5: "re_search (get_text_strip ?p5) = Some ''31 February, 2025''"
    by code_simp
  have s5: "strptime ''31 February, 2025'' = Inl ValueError"
    by code_simp
  have 5: "extract_submission_date (date_block ''Submitted 31 February, 2025'') = Inr None"
    using t [where block = "date_block ''Submitted 31 February, 2025''" and p = ?p5
        and g = "''31 February, 2025''" and e = ValueError, THEN conjunct2,
        THEN conjunct2, THEN conjunct2, THEN conjunct2, THEN conjunct2] f5 g5 s5 by blast
  from 1 2 3 4 5 show ?thesis by blast
qed

section \<open>The date filter\<close>

text \<open>
  C2. For every list of results and every cutoff, the URLs queued for download are, in
  page order, the payload URLs of the results whose submission date is present and not
  before the cutoff. A result dated exactly at the cutoff is retained and its URL queued;
  a result dated strictly before the cutoff is excluded; a result with no date is
  excluded with no date comparison made; every queued URL comes from a retained result.
\<close>

theorem date_filter_inclusive:
  "(\<exists>evs. queue_results cutoff results tr =
       (Inr (List.map_filter extract_pdf_url
          (filter (\<lambda>r. case extract_submission_date r of
                          Inr (Some d) \<Rightarrow> cutoff \<le> d | _ \<Rightarrow> False) results)),
        tr @ evs))
   \<and> (extract_submission_date r = Inr (Some cutoff) \<and> extract_pdf_url r = Some u \<longrightarrow>
        queue_results cutoff [r] tr =
          (Inr [u], tr @ [EvPrint (LogDate 1 cutoff), EvPrint (LogQueuing 1 u)]))
   \<and> (extract_submission_date r = Inr (Some d) \<and> d < cutoff \<longrightarrow>
        queue_results cutoff [r] tr =
          (Inr [], tr @ [EvPrint (LogDate 1 d), EvPrint (LogOlder 1)]))
   \<and> (extract_submission_date r = Inr None \<longrightarrow>
        queue_results cutoff [r] tr = (Inr [], tr @ [EvPrint (LogNoDate 1)]))
   \<and> (\<forall>v. v \<in> set (projr (fst (queue_results cutoff results tr))) \<longrightarrow>
        (\<exists>x\<in>set results. \<exists>t. extract_submission_date x = Inr (Some t) \<and> cutoff \<le> t
           \<and> extract_pdf_url x = Some v))"
proof (intro conjI impI allI)
  show run: "\<exists>evs. queue_results cutoff results tr =
       (Inr (List.map_filter extract_pdf_url
          (filter (\<lambda>r. case extract_submission_date r of
                          Inr (Some d) \<Rightarrow> cutoff \<le> d | _ \<Rightarrow> False) results)),
        tr @ evs)"
    using queue_loop_run [of cutoff 1 results "[]" tr]
    by (auto simp: queue_results_def)
  fix v
  assume "v \<in> set (projr (fst (queue_results cutoff results tr)))"
  with run have "v \<in> set (List.map_filter extract_pdf_url
          (filter (\<lambda>r. case extract_submission_date r of
                          Inr (Some d) \<Rightarrow> cutoff \<le> d | _ \<Rightarrow> False) results))"
    by auto
  then obtain x where x: "x \<in> set results" "extract_pdf_url x = Some v"
      "case extract_submission_date x of Inr (Some d) \<Rightarrow> cutoff \<le> d | _ \<Rightarrow> False"
    by (auto simp: List.map_filter_def)
  then obtain t where "extract_submission_date x = Inr (Some t)" "cutoff \<le> t"
    by (auto split: sum.splits option.splits)
  with x show "\<exists>x\<in>set results. \<exists>t. extract_submission_date x = Inr (Some t) \<and> cutoff \<le> t
           \<and> extract_pdf_url x = Some v"
    by blast
next
  assume "extract_submission_date r = Inr (Some cutoff) \<and> extract_pdf_url r = Some u"
  then show "queue_results cutoff [r] tr =
      (Inr [u], tr @ [EvPrint (LogDate 1 cutoff), EvPrint (LogQueuing 1 u)])"
    by (simp add: queue_results_def enumerate_simps result_step_def io_defs)
next
  assume "extract_submission_date r = Inr (Some d) \<and> d < cutoff"
  then show "queue_results cutoff [r] tr =
      (Inr [], tr @ [EvPrint (LogDate 1 d), EvPrint (LogOlder 1)])"
    by (simp add: queue_results_def enumerate_simps result_step_def io_defs)
next
  assume "extract_submission_date r = Inr None"
  then show "queue_results cutoff [r] tr = (Inr [], tr @ [EvPrint (LogNoDate 1)])"
    by (simp add: queue_results_def enumerate_simps result_step_def io_defs)
qed

theorem date_filter_inclusive_witness:
  "extract_submission_date (listing_block ''/pdf/2503.03395'' '' 4 March, 2025'')
     = Inr (Some (timestamp 2025 3 4))
   \<and> queue_results (timestamp 2025 3 4) [listing_block ''/pdf/2503.03395'' '' 4 March, 2025''] []
     = (Inr [''https://arxiv.org/pdf/2503.03395''],
        [EvPrint (LogDate 1 (timestamp 2025 3 4)),
         EvPrint (LogQueuing 1 ''https://arxiv.org/pdf/2503.03395'')])
   \<and> timestamp 2025 3 4 < timestamp 2025 3 4 + 1
   \<and> queue_results (timestamp 2025 3 4 + 1)
       [listing_block ''/pdf/2503.03395'' '' 4 March, 2025''] []
     = (Inr [], [EvPrint (LogDate 1 (timestamp 2025 3 4)), EvPrint (LogOlder 1)])
   \<and> queue_results (timestamp 2025 3 4) [Elem ''li'' [] []] []
     = (Inr [], [EvPrint (LogNoDate 1)])"
proof -
  note t = date_filter_inclusive
  let ?b = "listing_block ''/pdf/2503.03395'' '' 4 March, 2025''"
  have d: "extract_submission_date ?b = Inr (Some (timestamp 2025 3 4))"
    by code_simp
  have u: "extract_pdf_url ?b = Some ''https://arxiv.org/pdf/2503.03395''"
    by code_simp
  have n: "extract_submission_date (Elem ''li'' [] []) = Inr None"
    by code_simp
  have 1: "queue_results (timestamp 2025 3 4) [?b] []
     = (Inr [''https://arxiv.org/pdf/2503.03395''],
        [] @ [EvPrint (LogDate 1 (timestamp 2025 3 4)),
         EvPrint (LogQueuing 1 ''https://arxiv.org/pdf/2503.03395'')])"
    using t [where cutoff = "timestamp 2025 3 4" and tr = "[]" and r = ?b
        and u = "''https://arxiv.org/pdf/2503.03395''", THEN conjunct2, THEN conjunct1] d u by blast
  have 2: "queue_results (timestamp 2025 3 4 + 1) [?b] []
     = (Inr [], [] @ [EvPrint (LogDate 1 (timestamp 2025 3 4)), EvPrint (LogOlder 1)])"
    using t [where cutoff = "timestamp 2025 3 4 + 1" and tr = "[]" and r = ?b
        and d = "timestamp 2025 3 4", THEN conjunct2, THEN conjunct2, THEN conjunct1] d by simp
  have 3: "queue_results (timestamp 2025 3 4) [Elem ''li'' [] []] []
     = (Inr [], [] @ [EvPrint (LogNoDate 1)])"
    using t [where cutoff = "timestamp 2025 3 4" and tr = "[]" and r = "Elem ''li'' [] []",
        THEN conjunct2, THEN conjunct2, THEN conjunct2, THEN conjunct1] n by blast
  from d 1 2 3 show ?thesis by simp
qed


section \<open>Configuration\<close>

lemma load_config_trace: "\<exists>r. load_config env path tr = (r, tr @ [EvReadJson path])"
  by (cases "read_json env path")
     (auto simp: load_config_def io_defs split: sum.splits)

lemma load_config_missing:
  "read_json env path = Inr (JObject kvs) \<Longrightarrow> map_of kvs ''url'' = None \<Longrightarrow>
   load_config env path tr = (Inl ValueError, tr @ [EvReadJson path])"
  by (simp add: load_config_def io_defs strip_def)

lemma load_config_empty:
  "read_json env path = Inr (JObject kvs) \<Longrightarrow> map_of kvs ''url'' = Some (JString s) \<Longrightarrow>
   strip s = [] \<Longrightarrow>
   load_config env path tr = (Inl ValueError, tr @ [EvReadJson path])"
  by (simp add: load_config_def io_defs)

section \<open>Pages\<close>





lemma process_page_transport:
  "requests_get env (page_url base offset) = Inl e \<Longrightarrow>
   process_page env base offset cutoff dir tr =
     (Inl e, tr @ [EvPrint (LogFetching (page_url base offset)), EvGet (page_url base offset)])"
  by (simp add: process_page_def page_url_def io_defs Let_def)

lemma process_page_status:
  "requests_get env (page_url base offset) = Inr r \<Longrightarrow> raise_for_status r = Some e \<Longrightarrow>
   process_page env base offset cutoff dir tr =
     (Inl e, tr @ [EvPrint (LogFetching (page_url base offset)), EvGet (page_url base offset)])"
  by (simp add: process_page_def page_url_def io_defs Let_def)

lemma process_page_fetched:
  assumes "requests_get env (page_url base offset) = Inr r" and "raise_for_status r = None"
  shows "\<exists>evs. list_all is_print evs \<and>
     process_page env base offset cutoff dir tr =
       download_phase env
         (List.map_filter extract_pdf_url
            (filter (\<lambda>x. case extract_submission_date x of
                            Inr (Some d) \<Rightarrow> cutoff \<le> d | _ \<Rightarrow> False)
               (find_all_class (parse_html env (body r)) ''li'' ''arxiv-result'')))
         dir
         (tr @ [EvPrint (LogFetching (page_url base offset)), EvGet (page_url base offset),
                EvPrint (LogFound (length
                  (find_all_class (parse_html env (body r)) ''li'' ''arxiv-result'')))] @ evs)"
proof -
  let ?results = "find_all_class (parse_html env (body r)) ''li'' ''arxiv-result''"
  let ?tr = "tr @ [EvPrint (LogFetching (page_url base offset)), EvGet (page_url base offset),
                EvPrint (LogFound (length ?results))]"
  obtain evs where q: "queue_results cutoff ?results ?tr =
      (Inr (List.map_filter extract_pdf_url
          (filter (\<lambda>x. case extract_submission_date x of
                          Inr (Some d) \<Rightarrow> cutoff \<le> d | _ \<Rightarrow> False) ?results)), ?tr @ evs)"
      and p: "list_all is_print evs"
    using queue_loop_run [of cutoff 1 ?results "[]" ?tr]
    by (auto simp: queue_results_def)
  have "process_page env base offset cutoff dir tr =
      io_bind (queue_results cutoff ?results) (\<lambda>download_tasks.
         download_phase env download_tasks dir) ?tr"
    using assms by (simp add: process_page_def page_url_def io_defs Let_def)
  with q p show ?thesis
    by (auto simp: io_bind_def)
qed


lemma process_page_returns:
  assumes "\<And>fs. mset (as_completed env fs) = mset fs"
    and "requests_get env (page_url base offset) = Inr r" and "raise_for_status r = None"
  shows "\<exists>n evs. process_page env base offset cutoff dir tr = (Inr n, tr @ evs)"
proof -
  from process_page_fetched [OF assms(2,3), of cutoff dir tr]
  obtain evs where "process_page env base offset cutoff dir tr =
       download_phase env
         (List.map_filter extract_pdf_url
            (filter (\<lambda>x. case extract_submission_date x of
                            Inr (Some d) \<Rightarrow> cutoff \<le> d | _ \<Rightarrow> False)
               (find_all_class (parse_html env (body r)) ''li'' ''arxiv-result'')))
         dir
         (tr @ [EvPrint (LogFetching (page_url base offset)), EvGet (page_url base offset),
                EvPrint (LogFound (length
                  (find_all_class (parse_html env (body r)) ''li'' ''arxiv-result'')))] @ evs)"
    by blast
  then show ?thesis
    by (simp add: download_phase_run [OF assms(1)])
qed


lemma pages_prefix:
  assumes "\<And>fs. mset (as_completed env fs) = mset fs"
    and "\<forall>a\<in>set pre. \<exists>r. requests_get env (page_url base a) = Inr r
          \<and> raise_for_status r = None"
  shows "\<exists>n evs. \<forall>rest. io_foldl (page_step env base cutoff dir) (pre @ rest) acc tr =
     io_foldl (page_step env base cutoff dir) rest n (tr @ evs)"
  using assms(2)
proof (induction pre arbitrary: acc tr)
  case Nil
  have "\<forall>rest. io_foldl (page_step env base cutoff dir) ([] @ rest) acc tr =
     io_foldl (page_step env base cutoff dir) rest acc (tr @ [])"
    by simp
  then show ?case by blast
next
  case (Cons a pre)
  obtain r where "requests_get env (page_url base a) = Inr r" "raise_for_status r = None"
    using Cons.prems by auto
  then obtain k evs where page: "process_page env base a cutoff dir tr = (Inr k, tr @ evs)"
    using process_page_returns [OF assms(1), of base a r cutoff dir tr] by blast
  obtain n evs' where rest: "\<forall>rest. io_foldl (page_step env base cutoff dir) (pre @ rest)
        (acc + k) (tr @ evs) =
      io_foldl (page_step env base cutoff dir) rest n ((tr @ evs) @ evs')"
    using Cons.IH [of "acc + k" "tr @ evs"] Cons.prems by auto
  from page have "page_step env base cutoff dir acc a tr = (Inr (acc + k), tr @ evs)"
    by (simp add: page_step_def io_bind_def return_def)
  then have "\<forall>rest. io_foldl (page_step env base cutoff dir) ((a # pre) @ rest) acc tr =
      io_foldl (page_step env base cutoff dir) rest n (tr @ (evs @ evs'))"
    using rest by (simp add: io_bind_def)
  then show ?case by blast
qed

lemma download_pdfs_started:
  assumes "load_config env path [] = (Inr base, tr1)" and "makedirs env dir = None"
    and "minus_days (clock env 0) days = Inr cutoff"
  shows "download_pdfs env path dir days offsets [] =
     io_bind (io_foldl (page_step env base cutoff dir) (offsets_or_default offsets) 0)
       (\<lambda>total_downloaded.
          io_bind (op_print (LogDone dir total_downloaded)) (\<lambda>_. return total_downloaded))
       [EvReadJson path, EvMakedirs dir, EvNow]"
proof -
  have tr1: "tr1 = [EvReadJson path]"
    using load_config_trace [of env path "[]"] assms(1) by auto
  show ?thesis
    using assms
    by (simp add: download_pdfs_def offsets_or_default_def tr1 io_bind_def op_makedirs_def
        op_now_def lift_def Let_def)
qed


section \<open>The driver\<close>






text \<open>
  C7. When the configuration object has no \<open>url\<close> field, or the field is a string that
  is empty after trimming, \<open>download_pdfs\<close> raises the configuration error
  \<open>ValueError\<close> and returns no count. The only effect of the run is the read of the
  configuration file: no request is sent, no directory is made and no file is written.
\<close>

theorem missing_url_aborts_before_effects:
  "read_json env path = Inr (JObject kvs)
   \<and> (map_of kvs ''url'' = None \<or> map_of kvs ''url'' = Some (JString s) \<and> strip s = [])
   \<longrightarrow> download_pdfs env path dir days offsets tr = (Inl ValueError, tr @ [EvReadJson path])"
proof
  assume a: "read_json env path = Inr (JObject kvs)
   \<and> (map_of kvs ''url'' = None \<or> map_of kvs ''url'' = Some (JString s) \<and> strip s = [])"
  then have "load_config env path tr = (Inl ValueError, tr @ [EvReadJson path])"
    using load_config_missing [of env path kvs tr] load_config_empty [of env path kvs s tr]
    by blast
  then show "download_pdfs env path dir days offsets tr = (Inl ValueError, tr @ [EvReadJson path])"
    by (simp add: download_pdfs_def io_bind_def Let_def)
qed

theorem missing_url_aborts_before_effects_witness:
  "download_pdfs (config_env (JObject [(''days'', JNumber 7)])) ''config/url.json'' ''out'' 7 None []
     = (Inl ValueError, [EvReadJson ''config/url.json''])
   \<and> download_pdfs (config_env (JObject [(''url'', JString ''  '')])) ''config/url.json'' ''out'' 7
       None [] = (Inl ValueError, [EvReadJson ''config/url.json''])"
proof -
  note t = missing_url_aborts_before_effects
  have 1: "download_pdfs (config_env (JObject [(''days'', JNumber 7)])) ''config/url.json''
      ''out'' 7 None [] = (Inl ValueError, [] @ [EvReadJson ''config/url.json''])"
    by (rule t [where kvs = "[(''days'', JNumber 7)]", rule_format])
       (simp add: config_env_def)
  have "strip ''  '' = []" by code_simp
  then have 2: "download_pdfs (config_env (JObject [(''url'', JString ''  '')]))
      ''config/url.json'' ''out'' 7 None [] = (Inl ValueError, [] @ [EvReadJson ''config/url.json''])"
    by (intro t [where kvs = "[(''url'', JString ''  '')]" and s = "''  ''", rule_format])
       (simp add: config_env_def)
  from 1 2 show ?thesis by simp
qed





lemma run_env_start:
  "load_config run_env ''config/url.json'' [] =
     (Inr ''https://arxiv.org/search/?query=x'', [EvReadJson ''config/url.json''])"
  "makedirs run_env ''out'' = None"
  "minus_days (clock run_env 0) 7 = Inr (timestamp 2025 3 3)"
  by code_simp+


text \<open>
  C10. Called with \<open>offsets\<close> absent, \<open>download_pdfs\<close> behaves in every environment as
  with the offsets \<open>[0, 50]\<close>: the default is in place before the configuration is
  read, and a run that starts processes the page at offset 0 and then the page at
  offset 50, and no other.
\<close>

theorem default_offsets:
  "download_pdfs env path dir days None = download_pdfs env path dir days (Some [0, 50])
   \<and> (load_config env path [] = (Inr base, tr1) \<and> makedirs env dir = None
        \<and> minus_days (clock env 0) days = Inr cutoff
      \<longrightarrow> download_pdfs env path dir days None [] =
            io_bind (process_page env base 0 cutoff dir) (\<lambda>first.
            io_bind (process_page env base 50 cutoff dir) (\<lambda>second.
            io_bind (op_print (LogDone dir (0 + first + second))) (\<lambda>_.
            return (0 + first + second))))
              [EvReadJson path, EvMakedirs dir, EvNow])"
proof (intro conjI impI)
  show "download_pdfs env path dir days None = download_pdfs env path dir days (Some [0, 50])"
    by (simp add: download_pdfs_def)
next
  assume a: "load_config env path [] = (Inr base, tr1) \<and> makedirs env dir = None
        \<and> minus_days (clock env 0) days = Inr cutoff"
  have "download_pdfs env path dir days None [] =
     io_bind (io_foldl (page_step env base cutoff dir) (offsets_or_default None) 0)
       (\<lambda>total_downloaded.
          io_bind (op_print (LogDone dir total_downloaded)) (\<lambda>_. return total_downloaded))
       [EvReadJson path, EvMakedirs dir, EvNow]"
    using a by (intro download_pdfs_started [of env path base tr1]) auto
  also have "\<dots> = io_bind (process_page env base 0 cutoff dir) (\<lambda>first.
            io_bind (process_page env base 50 cutoff dir) (\<lambda>second.
            io_bind (op_print (LogDone dir (0 + first + second))) (\<lambda>_.
            return (0 + first + second))))
              [EvReadJson path, EvMakedirs dir, EvNow]"
    by (simp add: offsets_or_default_def page_step_def io_bind_def return_def
        split: prod.splits sum.splits)
  finally show "download_pdfs env path dir days None [] =
            io_bind (process_page env base 0 cutoff dir) (\<lambda>first.
            io_bind (process_page env base 50 cutoff dir) (\<lambda>second.
            io_bind (op_print (LogDone dir (0 + first + second))) (\<lambda>_.
            return (0 + first + second))))
              [EvReadJson path, EvMakedirs dir, EvNow]" .
qed

theorem default_offsets_witness:
  "download_pdfs run_env ''config/url.json'' ''out'' 7 None
     = download_pdfs run_env ''config/url.json'' ''out'' 7 (Some [0, 50])
   \<and> download_pdfs run_env ''config/url.json'' ''out'' 7 None [] =
     (Inr 1,
      [EvReadJson ''config/url.json'', EvMakedirs ''out'', EvNow,
       EvPrint (LogFetching ''https://arxiv.org/search/?query=x&start=0''),
       EvGet ''https://arxiv.org/search/?query=x&start=0'',
       EvPrint (LogFound 2), EvPrint (LogDate 1 (timestamp 2025 3 9)),
       EvPrint (LogQueuing 1 ''https://arxiv.org/pdf/2503.00001''),
       EvPrint (LogDate 2 (timestamp 2025 2 1)), EvPrint (LogOlder 2),
       EvGet ''https://arxiv.org/pdf/2503.00001'',
       EvWrite ''out/2503.00001.pdf'' ''%PDF'',
       EvPrint (LogSaved ''out/2503.00001.pdf''),
       EvPrint (LogFetching ''https://arxiv.org/search/?query=x&start=50''),
       EvGet ''https://arxiv.org/search/?query=x&start=50'',
       EvPrint (LogFound 0), EvPrint (LogDone ''out'' 1)])"
proof -
  note t = default_offsets [where env = run_env and path = "''config/url.json''"
      and dir = "''out''" and days = 7 and base = "''https://arxiv.org/search/?query=x''"
      and ?tr1.0 = "[EvReadJson ''config/url.json'']" and cutoff = "timestamp 2025 3 3"]
  have "io_bind (process_page run_env ''https://arxiv.org/search/?query=x'' 0
            (timestamp 2025 3 3) ''out'') (\<lambda>first.
          io_bind (process_page run_env ''https://arxiv.org/search/?query=x'' 50
            (timestamp 2025 3 3) ''out'') (\<lambda>second.
          io_bind (op_print (LogDone ''out'' (0 + first + second))) (\<lambda>_.
          return (0 + first + second))))
            [EvReadJson ''config/url.json'', EvMakedirs ''out'', EvNow] =
     (Inr 1,
      [EvReadJson ''config/url.json'', EvMakedirs ''out'', EvNow,
       EvPrint (LogFetching ''https://arxiv.org/search/?query=x&start=0''),
       EvGet ''https://arxiv.org/search/?query=x&start=0'',
       EvPrint (LogFound 2), EvPrint (LogDate 1 (timestamp 2025 3 9)),
       EvPrint (LogQueuing 1 ''https://arxiv.org/pdf/2503.00001''),
       EvPrint (LogDate 2 (timestamp 2025 2 1)), EvPrint (LogOlder 2),
       EvGet ''https://arxiv.org/pdf/2503.00001'',
       EvWrite ''out/2503.00001.pdf'' ''%PDF'',
       EvPrint (LogSaved ''out/2503.00001.pdf''),
       EvPrint (LogFetching ''https://arxiv.org/search/?query=x&start=50''),
       EvGet ''https://arxiv.org/search/?query=x&start=50'',
       EvPrint (LogFound 0), EvPrint (LogDone ''out'' 1)])"
    by code_simp
  then have "download_pdfs run_env ''config/url.json'' ''out'' 7 None [] =
     (Inr 1,
      [EvReadJson ''config/url.json'', EvMakedirs ''out'', EvNow,
       EvPrint (LogFetching ''https://arxiv.org/search/?query=x&start=0''),
       EvGet ''https://arxiv.org/search/?query=x&start=0'',
       EvPrint (LogFound 2), EvPrint (LogDate 1 (timestamp 2025 3 9)),
       EvPrint (LogQueuing 1 ''https://arxiv.org/pdf/2503.00001''),
       EvPrint (LogDate 2 (timestamp 2025 2 1)), EvPrint (LogOlder 2),
       EvGet ''https://arxiv.org/pdf/2503.00001'',
       EvWrite ''out/2503.00001.pdf'' ''%PDF'',
       EvPrint (LogSaved ''out/2503.00001.pdf''),
       EvPrint (LogFetching ''https://arxiv.org/search/?query=x&start=50''),
       EvGet ''https://arxiv.org/search/?query=x&start=50'',
       EvPrint (LogFound 0), EvPrint (LogDone ''out'' 1)])"
    by (rule trans [OF t [THEN conjunct2, rule_format, OF conjI [OF run_env_start(1)
          conjI [OF run_env_start(2) run_env_start(3)]]]])
  then show ?thesis
    by (intro conjI t [THEN conjunct1])
qed


section \<open>Fail-fast across pages\<close>

text \<open>
  C6, as stated, fails on a listing response that is neither 2xx nor an error for
  \<open>raise_for_status\<close>: with status 304 on every page the run processes both offsets and
  returns a count.
\<close>

theorem page_fetch_304_counterexample:
  "requests_get (status_env 304) (page_url ''https://arxiv.org/search/?query=x'' 0)
     = Inr \<lparr>status_code = 304, body = ''''\<rparr>
   \<and> \<not> (200 \<le> (304::nat) \<and> (304::nat) < 300)
   \<and> download_pdfs (status_env 304) ''config/url.json'' ''out'' 7 (Some [0, 50]) [] =
       (Inr 0,
        [EvReadJson ''config/url.json'', EvMakedirs ''out'', EvNow,
         EvPrint (LogFetching ''https://arxiv.org/search/?query=x&start=0''),
         EvGet ''https://arxiv.org/search/?query=x&start=0'', EvPrint (LogFound 0),
         EvPrint (LogFetching ''https://arxiv.org/search/?query=x&start=50''),
         EvGet ''https://arxiv.org/search/?query=x&start=50'', EvPrint (LogFound 0),
         EvPrint (LogDone ''out'' 0)])"
  by code_simp

lemma page_fails:
  assumes "requests_get env (page_url base offset) = Inl e
     \<or> (\<exists>r. requests_get env (page_url base offset) = Inr r
          \<and> 400 \<le> status_code r \<and> status_code r < 600 \<and> e = HTTPError)"
  shows "process_page env base offset cutoff dir tr =
     (Inl e, tr @ [EvPrint (LogFetching (page_url base offset)), EvGet (page_url base offset)])"
  using assms
proof
  assume "requests_get env (page_url base offset) = Inl e"
  then show ?thesis by (rule process_page_transport)
next
  assume "\<exists>r. requests_get env (page_url base offset) = Inr r
          \<and> 400 \<le> status_code r \<and> status_code r < 600 \<and> e = HTTPError"
  then obtain r where "requests_get env (page_url base offset) = Inr r"
      "raise_for_status r = Some e"
    by (auto simp: raise_for_status_def)
  then show ?thesis by (rule process_page_status)
qed

text \<open>
  C6, amended. When the fetch of the listing page at some offset fails, by a transport
  error or a 4xx or 5xx status, while the pages before it were fetched, that exception
  leaves \<open>download_pdfs\<close>: no count is returned, the failed request is the last effect of
  the run, and the offsets after it play no part.
\<close>

theorem page_fetch_failure_aborts:
  assumes "\<And>fs. mset (as_completed env fs) = mset fs"
    and "load_config env path [] = (Inr base, tr1)" and "makedirs env dir = None"
    and "minus_days (clock env 0) days = Inr cutoff"
    and "\<forall>a\<in>set pre. \<exists>r. requests_get env (page_url base a) = Inr r
          \<and> raise_for_status r = None"
    and "requests_get env (page_url base offset) = Inl e
     \<or> (\<exists>r. requests_get env (page_url base offset) = Inr r
          \<and> 400 \<le> status_code r \<and> status_code r < 600 \<and> e = HTTPError)"
  shows "\<exists>evs. download_pdfs env path dir days (Some (pre @ offset # post)) [] =
       (Inl e, evs @ [EvPrint (LogFetching (page_url base offset)),
                      EvGet (page_url base offset)])
     \<and> download_pdfs env path dir days (Some (pre @ offset # post)) [] =
       download_pdfs env path dir days (Some (pre @ [offset])) []"
proof -
  let ?start = "[EvReadJson path, EvMakedirs dir, EvNow]"
  let ?fail = "[EvPrint (LogFetching (page_url base offset)), EvGet (page_url base offset)]"
  obtain n evs where pre: "\<forall>rest. io_foldl (page_step env base cutoff dir) (pre @ rest) 0 ?start
      = io_foldl (page_step env base cutoff dir) rest n (?start @ evs)"
    using pages_prefix [OF assms(1) assms(5), of cutoff dir 0 ?start] by blast
  have step: "page_step env base cutoff dir n offset (?start @ evs)
      = (Inl e, (?start @ evs) @ ?fail)"
    using page_fails [OF assms(6), of cutoff dir "?start @ evs"]
    by (simp add: page_step_def io_bind_def)
  have loop: "io_foldl (page_step env base cutoff dir) (pre @ offset # rest) 0 ?start
      = (Inl e, (?start @ evs) @ ?fail)" for rest
    using pre [rule_format, of "offset # rest"] step by (simp add: io_bind_def)
  have run: "download_pdfs env path dir days (Some (pre @ offset # rest)) []
      = (Inl e, (?start @ evs) @ ?fail)" for rest
    using download_pdfs_started [OF assms(2,3,4), of "Some (pre @ offset # rest)"] loop [of rest]
    by (simp add: offsets_or_default_def io_bind_def)
  from run [of post] run [of "[]"] show ?thesis
    by (intro exI [of _ "?start @ evs"]) simp
qed

lemma outage_env_start:
  "load_config outage_env ''config/url.json'' [] =
     (Inr ''https://arxiv.org/search/?query=x'', [EvReadJson ''config/url.json''])"
  "makedirs outage_env ''out'' = None"
  "minus_days (clock outage_env 0) 7 = Inr (timestamp 2025 3 3)"
  "requests_get outage_env (page_url ''https://arxiv.org/search/?query=x'' 0)
     = Inr \<lparr>status_code = 200, body = ''page 0''\<rparr>"
  "raise_for_status \<lparr>status_code = 200, body = ''page 0''\<rparr> = None"
  "requests_get outage_env (page_url ''https://arxiv.org/search/?query=x'' 50)
     = Inl ConnectionError"
  by code_simp+

theorem page_fetch_failure_aborts_witness:
  "(\<forall>fs. mset (as_completed outage_env fs) = mset fs)
   \<and> requests_get outage_env (page_url ''https://arxiv.org/search/?query=x'' 50)
       = Inl ConnectionError
   \<and> (\<exists>evs. download_pdfs outage_env ''config/url.json'' ''out'' 7 (Some [0, 50, 100]) [] =
         (Inl ConnectionError,
          evs @ [EvPrint (LogFetching (page_url ''https://arxiv.org/search/?query=x'' 50)),
                 EvGet (page_url ''https://arxiv.org/search/?query=x'' 50)]))
   \<and> download_pdfs outage_env ''config/url.json'' ''out'' 7 (Some [0, 50, 100]) [] =
       download_pdfs outage_env ''config/url.json'' ''out'' 7 (Some [0, 50]) []"
proof -
  have perm: "\<And>fs. mset (as_completed outage_env fs) = mset fs"
    by (simp add: outage_env_def run_env_def)
  have before: "\<forall>a\<in>set [0]. \<exists>r.
      requests_get outage_env (page_url ''https://arxiv.org/search/?query=x'' a) = Inr r
      \<and> raise_for_status r = None"
    using outage_env_start(4,5) by simp
  have fails: "requests_get outage_env (page_url ''https://arxiv.org/search/?query=x'' 50)
       = Inl ConnectionError
     \<or> (\<exists>r. requests_get outage_env (page_url ''https://arxiv.org/search/?query=x'' 50) = Inr r
          \<and> 400 \<le> status_code r \<and> status_code r < 600 \<and> ConnectionError = HTTPError)"
    using outage_env_start(6) by simp
  note run = page_fetch_failure_aborts [OF perm outage_env_start(1,2,3) before fails,
      of "[100]", unfolded append_Cons append_Nil]
  from run perm outage_env_start(6) show ?thesis by blast
qed


end
